theory Spec2Isabelle
  imports Main "HOL-Library.Word"
begin

section \<open>The confirmation tracker: BlockchainManager in src/lib/blockchain.ts\<close>

subsection \<open>Data\<close>

text \<open>
  The union type \<^verbatim>\<open>'pending' | 'confirmed' | 'failed'\<close> of the field
  \<^verbatim>\<open>TransactionStatus.status\<close>.
\<close>

datatype tx_state = Pending | Confirmed | Failed

text \<open>
  The interface \<^verbatim>\<open>TransactionStatus\<close>. Block numbers and confirmation counts are
  JavaScript numbers holding integers far below \<open>2 ^ 53\<close>, where the arithmetic of
  the source is exact: they are \<open>int\<close>. The optional fields are options; the two gas
  fields hold the decimal string of a number in the source and the number itself here.
\<close>

record TransactionStatus =
  hash :: string
  status :: tx_state
  confirmations :: int
  gasUsed :: "nat option"
  effectiveGasPrice :: "nat option"
  blockNumber :: "int option"

text \<open>The fields of an ethers transaction receipt that \<^verbatim>\<open>monitorTransaction\<close> reads.\<close>

record TransactionReceipt =
  receipt_status :: "int option"
  receipt_blockNumber :: int
  receipt_gasUsed :: nat
  receipt_gasPrice :: "nat option"

text \<open>An awaited call on the provider either rejects (the \<^verbatim>\<open>await\<close> throws) or resolves.\<close>

datatype 'a outcome = Throws | Returns 'a

text \<open>
  What the ledger node answers during one run of \<^verbatim>\<open>monitorTransaction\<close>:
  \<^verbatim>\<open>provider.getTransaction(txHash)\<close> (\<open>Returns False\<close> is the answer
  \<^verbatim>\<open>null\<close>), \<^verbatim>\<open>tx.wait()\<close> (\<open>Returns None\<close> is a \<^verbatim>\<open>null\<close> receipt),
  \<^verbatim>\<open>provider.getBlockNumber()\<close> and \<^verbatim>\<open>contract.queryFilter(NFTMinted, from, to)\<close>,
  whose events are pairs of a transaction hash and a token id.
\<close>

record Ledger =
  getTransaction :: "string \<Rightarrow> bool outcome"
  wait :: "string \<Rightarrow> TransactionReceipt option outcome"
  getBlockNumber :: "int outcome"
  queryFilter :: "int \<Rightarrow> int \<Rightarrow> (string \<times> nat) list outcome"

text \<open>
  The static fields of the class. \<open>contract\<close>, \<open>signer\<close> and \<open>provider\<close> say whether
  the field is set (not \<^verbatim>\<open>null\<close>); \<open>pendingTransactions\<close> is the
  \<^verbatim>\<open>Map<string, TransactionStatus>\<close>.
\<close>

record BlockchainManager =
  contract :: bool
  signer :: bool
  provider :: bool
  pendingTransactions :: "string \<rightharpoonup> TransactionStatus"

subsection \<open>Operations\<close>

text \<open>The status built from a receipt, lines 223 to 230.\<close>

definition receiptStatus :: "string \<Rightarrow> TransactionReceipt \<Rightarrow> int \<Rightarrow> TransactionStatus" where
  "receiptStatus txHash receipt currentBlock =
     \<lparr>hash = txHash,
      status = (if receipt_status receipt = Some 1 then Confirmed else Failed),
      confirmations = currentBlock - receipt_blockNumber receipt + 1,
      gasUsed = Some (receipt_gasUsed receipt),
      effectiveGasPrice = receipt_gasPrice receipt,
      blockNumber = Some (receipt_blockNumber receipt)\<rparr>"

text \<open>The status built in the \<^verbatim>\<open>catch\<close> block, lines 259 to 263.\<close>

definition failedStatus :: "string \<Rightarrow> TransactionStatus" where
  "failedStatus txHash =
     \<lparr>hash = txHash, status = Failed, confirmations = 0,
      gasUsed = None, effectiveGasPrice = None, blockNumber = None\<rparr>"

text \<open>
  The \<^verbatim>\<open>try\<close> block of \<^verbatim>\<open>monitorTransaction\<close>, lines 214 to 255. It returns
  whether it threw, and the state it had reached by then: a write to the map made
  before the exception stays. Console output is not modelled.
\<close>

definition monitorTry :: "Ledger \<Rightarrow> string \<Rightarrow> BlockchainManager \<Rightarrow> unit outcome \<times> BlockchainManager" where
  "monitorTry L txHash m =
     (if \<not> provider m then (Returns (), m)
      else (case getTransaction L txHash of
        Throws \<Rightarrow> (Throws, m)
      | Returns tx \<Rightarrow>
          (if \<not> tx then (Returns (), m)
           else (case wait L txHash of
             Throws \<Rightarrow> (Throws, m)
           | Returns None \<Rightarrow> (Returns (), m)
           | Returns (Some receipt) \<Rightarrow>
               (case getBlockNumber L of
                  Throws \<Rightarrow> (Throws, m)
                | Returns currentBlock \<Rightarrow>
                    (let m1 = m\<lparr>pendingTransactions :=
                               (pendingTransactions m)(txHash \<mapsto> receiptStatus txHash receipt currentBlock)\<rparr>
                     in if receipt_status receipt = Some 1 then
                          (if contract m1 then
                             (case queryFilter L (receipt_blockNumber receipt) (receipt_blockNumber receipt) of
                                Throws \<Rightarrow> (Throws, m1)
                              | Returns logs \<Rightarrow> (Returns (), m1))
                           else (Returns (), m1))
                        else (Returns (), m1)))))))"

text \<open>\<^verbatim>\<open>monitorTransaction\<close>, lines 212 to 267: the \<^verbatim>\<open>try\<close> block and its \<^verbatim>\<open>catch\<close>.\<close>

definition monitorTransaction :: "Ledger \<Rightarrow> string \<Rightarrow> BlockchainManager \<Rightarrow> BlockchainManager" where
  "monitorTransaction L txHash m =
     (case monitorTry L txHash m of
        (Returns u, m') \<Rightarrow> m'
      | (Throws, m') \<Rightarrow>
          m'\<lparr>pendingTransactions := (pendingTransactions m')(txHash \<mapsto> failedStatus txHash)\<rparr>)"

text \<open>
  \<^verbatim>\<open>getTransactionStatus\<close>, line 373: \<^verbatim>\<open>this.pendingTransactions.get(txHash) || null\<close>.
  A stored status is an object, hence truthy, so the result is the stored status, or
  \<^verbatim>\<open>null\<close> (\<open>None\<close>) when the map has no entry.
\<close>

definition getTransactionStatus :: "BlockchainManager \<Rightarrow> string \<Rightarrow> TransactionStatus option" where
  "getTransactionStatus m txHash = pendingTransactions m txHash"

text \<open>\<^verbatim>\<open>clearTransactionHistory\<close>, line 381: \<^verbatim>\<open>this.pendingTransactions.clear()\<close>.\<close>

definition clearTransactionHistory :: "BlockchainManager \<Rightarrow> BlockchainManager" where
  "clearTransactionHistory m = m\<lparr>pendingTransactions := Map.empty\<rparr>"

text \<open>
  A sequence of monitor or refresh calls (the refresh button of the status card calls
  \<^verbatim>\<open>monitorTransaction\<close> again), each with the answers the ledger gives at that time.
\<close>

fun monitorAll :: "(Ledger \<times> string) list \<Rightarrow> BlockchainManager \<Rightarrow> BlockchainManager" where
  "monitorAll [] m = m"
| "monitorAll ((L, txHash) # calls) m = monitorAll calls (monitorTransaction L txHash m)"

section \<open>The proof registry: contract ZKProofRegistry\<close>

subsection \<open>Data\<close>

text \<open>
  Solidity's \<^verbatim>\<open>uint256\<close>, \<^verbatim>\<open>address\<close> and \<^verbatim>\<open>bytes32\<close> are machine words of
  their width, so that \<open>+\<close> wraps around as the unchecked increment of the \<^verbatim>\<open>Counters\<close>
  library does; \<^verbatim>\<open>bytes\<close> is a list of bytes and \<^verbatim>\<open>string\<close> a list of characters,
  each one byte.
\<close>

type_synonym uint256 = "256 word"
type_synonym address = "160 word"
type_synonym bytes32 = "256 word"
type_synonym bytes = "8 word list"

text \<open>The struct \<^verbatim>\<open>ProofCommitment\<close>, lines 22 to 29.\<close>

record ProofCommitment =
  commitment :: bytes32
  eventId :: string
  submitter :: address
  timestamp :: uint256
  isValid :: bool
  nftTokenId :: uint256

text \<open>The struct \<^verbatim>\<open>ProofMetadata\<close>, lines 31 to 37.\<close>

record ProofMetadata =
  eventName :: string
  eventDescription :: string
  imageUri :: string
  location :: string
  eventDate :: uint256

text \<open>The four events of the contract, lines 57 to 80, with their arguments in order.\<close>

datatype event =
    ProofSubmitted uint256 bytes32 string address
  | ProofValidated uint256 bool
  | NFTMinted uint256 uint256 address string
  | EventMetadataSet string string string

text \<open>
  The ways a call reverts. The first four are the \<^verbatim>\<open>require\<close> statements of the
  contract ("Event ID cannot be empty", "Proof data cannot be empty", "Proof already
  submitted", "Invalid proof ID"); \<open>Unauthorized\<close> is the modifier \<^verbatim>\<open>onlyOwner\<close>; the
  last three are the checks of the inherited \<^verbatim>\<open>_safeMint\<close>.
\<close>

datatype error =
    EmptyEventId
  | EmptyPayload
  | DuplicateCommitment
  | InvalidProofId
  | Unauthorized
  | MintToZeroAddress
  | TokenAlreadyMinted
  | NonERC721Receiver

text \<open>
  What the contract takes from the chain it runs on: the hash function
  \<^verbatim>\<open>keccak256\<close>, and whether a recipient accepts a token in \<^verbatim>\<open>_safeMint\<close> (true
  for an externally owned account; for a contract, the answer of its
  \<^verbatim>\<open>onERC721Received\<close>). Both are parameters of the model.
\<close>

record Chain =
  keccak256 :: "bytes \<Rightarrow> bytes32"
  checkOnERC721Received :: "address \<Rightarrow> uint256 \<Rightarrow> bool"

text \<open>
  The storage of the contract, lines 19 to 55: the two counters, the five mappings
  (a Solidity mapping is total, every key holds the zero value until written) and the
  base URI. From the inherited contracts the model keeps the owner of \<^verbatim>\<open>Ownable\<close>,
  the token owners of \<^verbatim>\<open>ERC721\<close> (the zero address for a token that does not
  exist) and the token URIs of \<^verbatim>\<open>ERC721URIStorage\<close>. \<open>events\<close> is the log of
  emitted events, oldest first.
\<close>

record ZKProofRegistry =
  tokenIdCounter :: uint256
  proofCounter :: uint256
  proofCommitments :: "uint256 \<Rightarrow> ProofCommitment"
  commitmentToProofId :: "bytes32 \<Rightarrow> uint256"
  eventMetadata :: "string \<Rightarrow> ProofMetadata"
  userProofs :: "address \<Rightarrow> uint256 list"
  eventProofs :: "string \<Rightarrow> uint256 list"
  baseTokenURI :: string
  owner :: address
  owners :: "uint256 \<Rightarrow> address"
  tokenURIs :: "uint256 \<Rightarrow> string"
  events :: "event list"

subsection \<open>Operations\<close>

text \<open>\<^verbatim>\<open>bytes(s)\<close> of a string, and the big-endian bytes of a word.\<close>

definition bytes_of_string :: "string \<Rightarrow> bytes" where
  "bytes_of_string str = map (\<lambda>c. word_of_nat (of_char c)) str"

definition be_bytes :: "nat \<Rightarrow> 'a::len word \<Rightarrow> bytes" where
  "be_bytes n w = map (\<lambda>i. ucast (drop_bit (8 * i) w)) (rev [0..<n])"

text \<open>
  \<^verbatim>\<open>abi.encodePacked(eventId, proofData, msg.sender, block.timestamp)\<close>, line 104: the
  bytes of the string and of the proof with no length and no padding, then the 20
  bytes of the address and the 32 bytes of the timestamp.
\<close>

definition encodePacked :: "string \<Rightarrow> bytes \<Rightarrow> address \<Rightarrow> uint256 \<Rightarrow> bytes" where
  "encodePacked eid proofData msg_sender block_timestamp =
     bytes_of_string eid @ proofData @ be_bytes 20 msg_sender @ be_bytes 32 block_timestamp"

text \<open>The commitment hash, lines 103 to 105.\<close>

definition commitmentOf :: "Chain \<Rightarrow> address \<Rightarrow> uint256 \<Rightarrow> string \<Rightarrow> bytes \<Rightarrow> bytes32" where
  "commitmentOf C msg_sender block_timestamp eid proofData =
     keccak256 C (encodePacked eid proofData msg_sender block_timestamp)"

text \<open>The zero values that a mapping holds at a key never written.\<close>

definition emptyProofCommitment :: ProofCommitment where
  "emptyProofCommitment =
     \<lparr>commitment = 0, eventId = [], submitter = 0, timestamp = 0, isValid = False, nftTokenId = 0\<rparr>"

definition emptyProofMetadata :: ProofMetadata where
  "emptyProofMetadata =
     \<lparr>eventName = [], eventDescription = [], imageUri = [], location = [], eventDate = 0\<rparr>"

text \<open>
  The constructor, lines 82 to 88, run by \<open>msg_sender\<close>, who becomes the owner. The
  token name and symbol of \<^verbatim>\<open>ERC721\<close> play no part and are left out.
\<close>

definition constructor :: "address \<Rightarrow> string \<Rightarrow> ZKProofRegistry" where
  "constructor msg_sender uri =
     \<lparr>tokenIdCounter = 0, proofCounter = 0,
      proofCommitments = (\<lambda>p. emptyProofCommitment),
      commitmentToProofId = (\<lambda>c. 0),
      eventMetadata = (\<lambda>e. emptyProofMetadata),
      userProofs = (\<lambda>u. []),
      eventProofs = (\<lambda>e. []),
      baseTokenURI = uri,
      owner = msg_sender,
      owners = (\<lambda>t. 0),
      tokenURIs = (\<lambda>t. []),
      events = []\<rparr>"

text \<open>
  The inherited \<^verbatim>\<open>_safeMint(recipient, tokenId)\<close>, line 153: it reverts for the zero
  address, for a token that exists and for a recipient that does not accept the
  token; otherwise the recipient owns the token. A revert undoes the whole call, so
  the order of the assignment and the last check does not show.
\<close>

definition safeMint :: "Chain \<Rightarrow> address \<Rightarrow> uint256 \<Rightarrow> ZKProofRegistry \<Rightarrow> error + ZKProofRegistry" where
  "safeMint C recipient tokenId s =
     (if recipient = 0 then Inl MintToZeroAddress
      else if owners s tokenId \<noteq> 0 then Inl TokenAlreadyMinted
      else if \<not> checkOnERC721Received C recipient tokenId then Inl NonERC721Receiver
      else Inr (s\<lparr>owners := (owners s)(tokenId := recipient)\<rparr>))"

text \<open>The inherited \<^verbatim>\<open>_setTokenURI\<close>, line 158, called here for a token just minted.\<close>

definition setTokenURI :: "uint256 \<Rightarrow> string \<Rightarrow> ZKProofRegistry \<Rightarrow> ZKProofRegistry" where
  "setTokenURI tokenId uri s = s\<lparr>tokenURIs := (tokenURIs s)(tokenId := uri)\<rparr>"

text \<open>\<^verbatim>\<open>_mintNFT\<close>, lines 141 to 162.\<close>

definition mintNFT :: "Chain \<Rightarrow> uint256 \<Rightarrow> address \<Rightarrow> string \<Rightarrow> ZKProofRegistry \<Rightarrow> error + ZKProofRegistry" where
  "mintNFT C proofId recipient eid s =
     (let s1 = s\<lparr>tokenIdCounter := tokenIdCounter s + 1\<rparr>;
          tokenId = tokenIdCounter s1;
          s2 = s1\<lparr>proofCommitments := (proofCommitments s1)
                   (proofId := (proofCommitments s1 proofId)\<lparr>nftTokenId := tokenId\<rparr>)\<rparr>
      in case safeMint C recipient tokenId s2 of
           Inl e \<Rightarrow> Inl e
         | Inr s3 \<Rightarrow>
             (let metadata = eventMetadata s3 eid;
                  s4 = (if length (imageUri metadata) > 0
                        then setTokenURI tokenId (imageUri metadata) s3 else s3)
              in Inr (s4\<lparr>events := events s4 @ [NFTMinted tokenId proofId recipient eid]\<rparr>)))"

text \<open>
  \<^verbatim>\<open>submitProof\<close>, lines 95 to 136, called by \<open>msg_sender\<close> in a block with time
  \<open>block_timestamp\<close>. It returns the new proof id and the new state, or the reason of
  the revert, which leaves the state as it was. Calls of the model are atomic, so the
  modifier \<^verbatim>\<open>nonReentrant\<close> has nothing to guard.
\<close>

definition submitProof ::
  "Chain \<Rightarrow> address \<Rightarrow> uint256 \<Rightarrow> string \<Rightarrow> bytes \<Rightarrow> ZKProofRegistry \<Rightarrow> error + uint256 \<times> ZKProofRegistry" where
  "submitProof C msg_sender block_timestamp eid proofData s =
     (if \<not> length (bytes_of_string eid) > 0 then Inl EmptyEventId
      else if \<not> length proofData > 0 then Inl EmptyPayload
      else
        (let c = commitmentOf C msg_sender block_timestamp eid proofData
         in if \<not> commitmentToProofId s c = 0 then Inl DuplicateCommitment
            else
              (let s1 = s\<lparr>proofCounter := proofCounter s + 1\<rparr>;
                   proofId = proofCounter s1;
                   s2 = s1\<lparr>proofCommitments := (proofCommitments s1)
                          (proofId := \<lparr>commitment = c, eventId = eid, submitter = msg_sender,
                                       timestamp = block_timestamp, isValid = True, nftTokenId = 0\<rparr>)\<rparr>;
                   s3 = s2\<lparr>commitmentToProofId := (commitmentToProofId s2)(c := proofId)\<rparr>;
                   s4 = s3\<lparr>userProofs := (userProofs s3)(msg_sender := userProofs s3 msg_sender @ [proofId])\<rparr>;
                   s5 = s4\<lparr>eventProofs := (eventProofs s4)(eid := eventProofs s4 eid @ [proofId])\<rparr>;
                   s6 = s5\<lparr>events := events s5 @ [ProofSubmitted proofId c eid msg_sender]\<rparr>
               in case (if isValid (proofCommitments s6 proofId)
                        then mintNFT C proofId msg_sender eid s6 else Inr s6) of
                    Inl e \<Rightarrow> Inl e
                  | Inr s7 \<Rightarrow> Inr (proofId, s7))))"

text \<open>\<^verbatim>\<open>setEventMetadata\<close>, lines 167 to 184.\<close>

definition setEventMetadata ::
  "address \<Rightarrow> string \<Rightarrow> string \<Rightarrow> string \<Rightarrow> string \<Rightarrow> string \<Rightarrow> uint256 \<Rightarrow> ZKProofRegistry \<Rightarrow> error + ZKProofRegistry" where
  "setEventMetadata msg_sender eid ename edescription eimage eloc edate s =
     (if msg_sender \<noteq> owner s then Inl Unauthorized
      else
        (let s1 = s\<lparr>eventMetadata := (eventMetadata s)
                     (eid := \<lparr>eventName = ename, eventDescription = edescription, imageUri = eimage,
                              location = eloc, eventDate = edate\<rparr>)\<rparr>
         in Inr (s1\<lparr>events := events s1 @ [EventMetadataSet eid ename eimage]\<rparr>)))"

text \<open>\<^verbatim>\<open>validateProof\<close>, lines 189 to 203.\<close>

definition validateProof ::
  "Chain \<Rightarrow> address \<Rightarrow> uint256 \<Rightarrow> bool \<Rightarrow> ZKProofRegistry \<Rightarrow> error + ZKProofRegistry" where
  "validateProof C msg_sender proofId v s =
     (if msg_sender \<noteq> owner s then Inl Unauthorized
      else if \<not> (proofId > 0 \<and> proofId \<le> proofCounter s) then Inl InvalidProofId
      else
        (let s1 = s\<lparr>proofCommitments := (proofCommitments s)
                     (proofId := (proofCommitments s proofId)\<lparr>isValid := v\<rparr>)\<rparr>;
             s2 = s1\<lparr>events := events s1 @ [ProofValidated proofId v]\<rparr>
         in if v \<and> nftTokenId (proofCommitments s2 proofId) = 0
            then mintNFT C proofId (submitter (proofCommitments s2 proofId))
                   (eventId (proofCommitments s2 proofId)) s2
            else Inr s2))"

text \<open>
  \<^verbatim>\<open>hasValidProofForEvent\<close>, lines 260 to 272: the loop over the proof ids of the
  user, then the function. The two strings are compared through their hashes, as in
  the source.
\<close>

fun hasValidProofLoop :: "Chain \<Rightarrow> uint256 list \<Rightarrow> string \<Rightarrow> ZKProofRegistry \<Rightarrow> bool" where
  "hasValidProofLoop C [] eid s = False"
| "hasValidProofLoop C (proofId # userProofIds) eid s =
     (let pc = proofCommitments s proofId
      in if keccak256 C (bytes_of_string (eventId pc)) = keccak256 C (bytes_of_string eid)
            \<and> isValid pc
         then True
         else hasValidProofLoop C userProofIds eid s)"

definition hasValidProofForEvent :: "Chain \<Rightarrow> address \<Rightarrow> string \<Rightarrow> ZKProofRegistry \<Rightarrow> bool" where
  "hasValidProofForEvent C user eid s = hasValidProofLoop C (userProofs s user) eid s"

text \<open>\<^verbatim>\<open>setBaseURI\<close>, lines 277 to 279.\<close>

definition setBaseURI :: "address \<Rightarrow> string \<Rightarrow> ZKProofRegistry \<Rightarrow> error + ZKProofRegistry" where
  "setBaseURI msg_sender uri s =
     (if msg_sender \<noteq> owner s then Inl Unauthorized else Inr (s\<lparr>baseTokenURI := uri\<rparr>))"

subsection \<open>Transactions and reachable states\<close>

text \<open>
  A transaction calls one of the four state-changing functions that the contract
  defines, with its sender (and, for a submission, the block time). A transaction that
  reverts leaves the state as it was. The reachable states are those that a list of
  transactions produces from the state after the constructor.
\<close>

datatype call =
    SubmitProof address uint256 string bytes
  | ValidateProof address uint256 bool
  | SetEventMetadata address string string string string string uint256
  | SetBaseURI address string

fun exec :: "Chain \<Rightarrow> call \<Rightarrow> ZKProofRegistry \<Rightarrow> ZKProofRegistry" where
  "exec C (SubmitProof msg_sender block_timestamp eid proofData) s =
     (case submitProof C msg_sender block_timestamp eid proofData s of
        Inl e \<Rightarrow> s | Inr (proofId, s') \<Rightarrow> s')"
| "exec C (ValidateProof msg_sender proofId v) s =
     (case validateProof C msg_sender proofId v s of Inl e \<Rightarrow> s | Inr s' \<Rightarrow> s')"
| "exec C (SetEventMetadata msg_sender eid ename edescription eimage eloc edate) s =
     (case setEventMetadata msg_sender eid ename edescription eimage eloc edate s of
        Inl e \<Rightarrow> s | Inr s' \<Rightarrow> s')"
| "exec C (SetBaseURI msg_sender uri) s =
     (case setBaseURI msg_sender uri s of Inl e \<Rightarrow> s | Inr s' \<Rightarrow> s')"

fun run :: "Chain \<Rightarrow> call list \<Rightarrow> ZKProofRegistry \<Rightarrow> ZKProofRegistry" where
  "run C [] s = s"
| "run C (c # cs) s = run C cs (exec C c s)"

subsection \<open>Notions used to state the properties\<close>

text \<open>
  A proof id names a stored record when it passes the check of \<^verbatim>\<open>getProof\<close> and
  \<^verbatim>\<open>validateProof\<close>, lines 190 and 244. A credential exists when the token has an
  owner, which is \<^verbatim>\<open>_exists\<close> of \<^verbatim>\<open>ERC721\<close>.
\<close>

definition storedProofId :: "ZKProofRegistry \<Rightarrow> uint256 \<Rightarrow> bool" where
  "storedProofId s p \<longleftrightarrow> 0 < p \<and> p \<le> proofCounter s"

definition tokenExists :: "ZKProofRegistry \<Rightarrow> uint256 \<Rightarrow> bool" where
  "tokenExists s tokenId \<longleftrightarrow> owners s tokenId \<noteq> 0"

text \<open>
  The invariant of the registry. The two counters agree; the record of a stored proof
  id carries that id as its token id, is indexed under its commitment and under its
  submitter, and its mint is in the log; every other key of \<open>proofCommitments\<close>
  holds the zero record; the commitment index, the token owners, the lists of
  \<open>userProofs\<close> and the log name stored proof ids only.
\<close>

definition registry_inv :: "ZKProofRegistry \<Rightarrow> bool" where
  "registry_inv s \<longleftrightarrow>
     tokenIdCounter s = proofCounter s \<and>
     (\<forall>p. storedProofId s p \<longrightarrow>
        nftTokenId (proofCommitments s p) = p \<and>
        commitmentToProofId s (commitment (proofCommitments s p)) = p \<and>
        p \<in> set (userProofs s (submitter (proofCommitments s p))) \<and>
        NFTMinted p p (submitter (proofCommitments s p)) (eventId (proofCommitments s p))
          \<in> set (events s)) \<and>
     (\<forall>p. \<not> storedProofId s p \<longrightarrow> proofCommitments s p = emptyProofCommitment) \<and>
     (\<forall>c. commitmentToProofId s c \<noteq> 0 \<longrightarrow>
        storedProofId s (commitmentToProofId s c) \<and>
        commitment (proofCommitments s (commitmentToProofId s c)) = c) \<and>
     (\<forall>t. owners s t \<noteq> 0 \<longleftrightarrow> storedProofId s t) \<and>
     (\<forall>u p. p \<in> set (userProofs s u) \<longrightarrow>
        storedProofId s p \<and> submitter (proofCommitments s p) = u) \<and>
     (\<forall>p c e u. ProofSubmitted p c e u \<in> set (events s) \<longrightarrow> storedProofId s p) \<and>
     (\<forall>t p r e. NFTMinted t p r e \<in> set (events s) \<longrightarrow> storedProofId s p \<and> t = p)"

subsection \<open>Example data for the registry\<close>

text \<open>
  A chain whose hash is the length of its input (enough to tell the examples apart)
  and where every recipient accepts a token; the proof bytes "proofA"; the submission
  of the scenario in the specification, by address 1 at time 100; and the registry
  deployed by address 7 after a list of transactions.
\<close>

definition ex_chain :: Chain where
  "ex_chain = \<lparr>keccak256 = (\<lambda>bs. word_of_nat (length bs)), checkOnERC721Received = (\<lambda>a t. True)\<rparr>"

definition ex_proofA :: bytes where
  "ex_proofA = [112, 114, 111, 111, 102, 65]"

definition ex_submit :: call where
  "ex_submit = SubmitProof 1 100 ''eth-summit'' ex_proofA"

definition ex_registry :: "call list \<Rightarrow> ZKProofRegistry" where
  "ex_registry cs = run ex_chain cs (constructor 7 ''ipfs://base/'')"

text \<open>
  A registry state with one stored record that has no credential. No list of
  transactions produces it (the invariant excludes it); it exercises the late minting
  branch of \<^verbatim>\<open>validateProof\<close>.
\<close>

definition ex_unminted :: ZKProofRegistry where
  "ex_unminted =
     (constructor 7 ''ipfs://base/'')
       \<lparr>proofCounter := 1,
        proofCommitments := (\<lambda>p. emptyProofCommitment)
          (1 := \<lparr>commitment = 68, eventId = ''eth-summit'', submitter = 1, timestamp = 100,
                 isValid = False, nftTokenId = 0\<rparr>)\<rparr>"

subsection \<open>Example data for the confirmation tracker\<close>

text \<open>
  The status that \<^verbatim>\<open>submitProofToBlockchain\<close> stores for a transaction it has just
  sent, lines 179 to 183.
\<close>

definition pendingStatus :: "string \<Rightarrow> TransactionStatus" where
  "pendingStatus txHash =
     \<lparr>hash = txHash, status = Pending, confirmations = 0,
      gasUsed = None, effectiveGasPrice = None, blockNumber = None\<rparr>"

text \<open>
  A manager with a connected provider that has just sent one transaction, a receipt
  of that transaction (success, in block 5), and ledgers that answer: with the receipt
  at a given current block, the event query failing or not; with an error at every
  call; that the transaction is unknown.
\<close>

definition ex_hash :: string where
  "ex_hash = ''0xabc''"

definition ex_manager :: "bool \<Rightarrow> BlockchainManager" where
  "ex_manager c =
     \<lparr>contract = c, signer = True, provider = True,
      pendingTransactions = [ex_hash \<mapsto> pendingStatus ex_hash]\<rparr>"

definition ex_receipt :: TransactionReceipt where
  "ex_receipt =
     \<lparr>receipt_status = Some 1, receipt_blockNumber = 5,
      receipt_gasUsed = 21000, receipt_gasPrice = Some 1\<rparr>"

definition ex_ledger :: "int \<Rightarrow> bool \<Rightarrow> Ledger" where
  "ex_ledger currentBlock logsFail =
     \<lparr>getTransaction = (\<lambda>h. Returns True),
      wait = (\<lambda>h. Returns (Some ex_receipt)),
      getBlockNumber = Returns currentBlock,
      queryFilter = (\<lambda>a b. if logsFail then Throws else Returns [])\<rparr>"

definition ex_ledger_down :: Ledger where
  "ex_ledger_down =
     \<lparr>getTransaction = (\<lambda>h. Throws), wait = (\<lambda>h. Throws),
      getBlockNumber = Throws, queryFilter = (\<lambda>a b. Throws)\<rparr>"

definition ex_ledger_unknown :: Ledger where
  "ex_ledger_unknown =
     \<lparr>getTransaction = (\<lambda>h. Returns False), wait = (\<lambda>h. Throws),
      getBlockNumber = Returns 9, queryFilter = (\<lambda>a b. Throws)\<rparr>"

section \<open>Properties of the confirmation tracker\<close>

lemmas tracker_defs =
  monitorTransaction_def monitorTry_def getTransactionStatus_def
  pendingStatus_def failedStatus_def receiptStatus_def

lemmas ex_tracker_defs =
  ex_hash_def ex_manager_def ex_receipt_def ex_ledger_def ex_ledger_down_def
  ex_ledger_unknown_def

text \<open>
  One run either leaves the entry of a handle as it was, or it is the run's own handle
  and the entry now holds a terminal status: no run writes \<open>Pending\<close>.
\<close>

lemma monitorTransaction_cases:
  "pendingTransactions (monitorTransaction L h m) h' = pendingTransactions m h' \<or>
   (h' = h \<and> (\<exists>st. pendingTransactions (monitorTransaction L h m) h = Some st \<and> status st \<noteq> Pending))"
  by (auto simp: tracker_defs Let_def split: outcome.splits option.splits)

lemma monitorAll_keeps_terminal:
  "pendingTransactions m h = Some st \<Longrightarrow> status st \<noteq> Pending \<Longrightarrow>
   \<exists>st'. pendingTransactions (monitorAll calls m) h = Some st' \<and> status st' \<noteq> Pending"
proof (induction calls arbitrary: m st)
  case Nil
  then show ?case by auto
next
  case (Cons c calls)
  obtain L k where c: "c = (L, k)" by (cases c)
  from monitorTransaction_cases [of L k m h] Cons.prems
  obtain st1 where "pendingTransactions (monitorTransaction L k m) h = Some st1"
    and "status st1 \<noteq> Pending"
    by auto
  from Cons.IH [OF this] show ?case by (simp add: c)
qed

lemma monitorAll_pending_unchanged:
  "pendingTransactions (monitorAll calls m) h = Some st' \<Longrightarrow> status st' = Pending \<Longrightarrow>
   pendingTransactions m h = Some st'"
proof (induction calls arbitrary: m)
  case Nil
  then show ?case by simp
next
  case (Cons c calls)
  obtain L k where c: "c = (L, k)" by (cases c)
  from Cons.prems have "pendingTransactions (monitorAll calls (monitorTransaction L k m)) h = Some st'"
    by (simp add: c)
  from Cons.IH [OF this Cons.prems(2)]
  have mid: "pendingTransactions (monitorTransaction L k m) h = Some st'" .
  from monitorTransaction_cases [of L k m h] mid Cons.prems(2) show ?case by auto
qed

text \<open>
  Claim C4, as amended. Over every sequence of monitor and refresh calls: a handle whose
  cached status is terminal (Confirmed or Failed) keeps a terminal status, it never goes
  back to Pending and never disappears; and a handle whose cached status is Pending
  after the sequence has exactly the status it had before it, so its confirmation
  count has not changed (it is the 0 stored at submission) and in particular has not
  decreased. What the amended claim no longer says is that a terminal status is frozen.
\<close>

theorem monitorAll_terminal_stays_terminal:
  "(\<forall>st. getTransactionStatus m h = Some st \<and> status st \<noteq> Pending \<longrightarrow>
      (\<exists>st'. getTransactionStatus (monitorAll calls m) h = Some st' \<and> status st' \<noteq> Pending)) \<and>
   (\<forall>st'. getTransactionStatus (monitorAll calls m) h = Some st' \<and> status st' = Pending \<longrightarrow>
      getTransactionStatus m h = Some st')"
  using monitorAll_keeps_terminal monitorAll_pending_unchanged
  unfolding getTransactionStatus_def by blast

theorem monitorAll_terminal_stays_terminal_witness:
  "getTransactionStatus (monitorAll [(ex_ledger 5 False, ex_hash)] (ex_manager True)) ex_hash
     = Some (receiptStatus ex_hash ex_receipt 5) \<and>
   status (receiptStatus ex_hash ex_receipt 5) \<noteq> Pending \<and>
   (\<exists>st'. getTransactionStatus
       (monitorAll [(ex_ledger_down, ex_hash), (ex_ledger_unknown, ex_hash)]
          (monitorAll [(ex_ledger 5 False, ex_hash)] (ex_manager True))) ex_hash = Some st' \<and>
       status st' \<noteq> Pending) \<and>
   getTransactionStatus (monitorAll [(ex_ledger_unknown, ex_hash)] (ex_manager True)) ex_hash
     = Some (pendingStatus ex_hash) \<and>
   status (pendingStatus ex_hash) = Pending \<and>
   getTransactionStatus (ex_manager True) ex_hash = Some (pendingStatus ex_hash)"
proof -
  have a: "getTransactionStatus (monitorAll [(ex_ledger 5 False, ex_hash)] (ex_manager True)) ex_hash
     = Some (receiptStatus ex_hash ex_receipt 5)"
    by (simp add: tracker_defs ex_tracker_defs)
  have b: "status (receiptStatus ex_hash ex_receipt 5) \<noteq> Pending"
    by (simp add: receiptStatus_def ex_receipt_def)
  have c: "getTransactionStatus (monitorAll [(ex_ledger_unknown, ex_hash)] (ex_manager True)) ex_hash
     = Some (pendingStatus ex_hash)"
    by (simp add: tracker_defs ex_tracker_defs)
  have d: "status (pendingStatus ex_hash) = Pending"
    by (simp add: pendingStatus_def)
  from a b c d
    monitorAll_terminal_stays_terminal
      [of "monitorAll [(ex_ledger 5 False, ex_hash)] (ex_manager True)" ex_hash
          "[(ex_ledger_down, ex_hash), (ex_ledger_unknown, ex_hash)]"]
    monitorAll_terminal_stays_terminal
      [of "ex_manager True" ex_hash "[(ex_ledger_unknown, ex_hash)]"]
  show ?thesis by blast
qed

text \<open>
  Claim C4 as stated fails. The transaction is confirmed with 1 confirmation at block 5;
  a refresh at block 9 changes the cached count of the terminal status to 5; a further
  refresh while the ledger node is down changes the terminal state from Confirmed to
  Failed and the count to 0.
\<close>

theorem terminal_status_not_frozen:
  "map_option status (getTransactionStatus
      (monitorAll [(ex_ledger 5 False, ex_hash)] (ex_manager True)) ex_hash) = Some Confirmed \<and>
   map_option confirmations (getTransactionStatus
      (monitorAll [(ex_ledger 5 False, ex_hash)] (ex_manager True)) ex_hash) = Some 1 \<and>
   map_option confirmations (getTransactionStatus
      (monitorAll [(ex_ledger 5 False, ex_hash), (ex_ledger 9 False, ex_hash)]
         (ex_manager True)) ex_hash) = Some 5 \<and>
   map_option status (getTransactionStatus
      (monitorAll [(ex_ledger 5 False, ex_hash), (ex_ledger 9 False, ex_hash),
                   (ex_ledger_down, ex_hash)] (ex_manager True)) ex_hash) = Some Failed \<and>
   map_option confirmations (getTransactionStatus
      (monitorAll [(ex_ledger 5 False, ex_hash), (ex_ledger 9 False, ex_hash),
                   (ex_ledger_down, ex_hash)] (ex_manager True)) ex_hash) = Some 0"
  by (simp add: tracker_defs ex_tracker_defs)

text \<open>
  Claim C5, as amended. One run of the monitor does one of three things to the cache.
  When an awaited call rejects (looking the transaction up, waiting for its receipt,
  reading the current block number), the cached status of the handle becomes Failed
  with 0 confirmations, whatever was cached before. When no provider is connected, when
  the ledger does not know the transaction, or when waiting yields no receipt, the
  manager is left exactly as it was. When the receipt and the current block number are
  obtained (and the event query that may follow does not reject), the cached status
  of the handle becomes the one computed from the receipt, which is Failed exactly
  when the receipt does not report success. In every case the entries of the other
  handles stay as they were.
\<close>

theorem monitorTransaction_error_marks_failed:
  "(provider m \<and>
      (getTransaction L h = Throws \<or>
       getTransaction L h = Returns True \<and>
         (wait L h = Throws \<or>
          (\<exists>r. wait L h = Returns (Some r)) \<and> getBlockNumber L = Throws)) \<longrightarrow>
      getTransactionStatus (monitorTransaction L h m) h = Some (failedStatus h) \<and>
      status (failedStatus h) = Failed \<and> confirmations (failedStatus h) = 0) \<and>
   (\<not> provider m \<or> getTransaction L h = Returns False \<or>
      getTransaction L h = Returns True \<and> wait L h = Returns None \<longrightarrow>
      monitorTransaction L h m = m) \<and>
   (provider m \<and> getTransaction L h = Returns True \<and> wait L h = Returns (Some r) \<and>
      getBlockNumber L = Returns currentBlock \<and>
      (receipt_status r \<noteq> Some 1 \<or> \<not> contract m \<or>
       queryFilter L (receipt_blockNumber r) (receipt_blockNumber r) \<noteq> Throws) \<longrightarrow>
      getTransactionStatus (monitorTransaction L h m) h = Some (receiptStatus h r currentBlock) \<and>
      (status (receiptStatus h r currentBlock) = Failed \<longleftrightarrow> receipt_status r \<noteq> Some 1)) \<and>
   (h' \<noteq> h \<longrightarrow>
      getTransactionStatus (monitorTransaction L h m) h' = getTransactionStatus m h')"
proof (intro conjI impI)
  assume "provider m \<and>
      (getTransaction L h = Throws \<or>
       getTransaction L h = Returns True \<and>
         (wait L h = Throws \<or>
          (\<exists>r. wait L h = Returns (Some r)) \<and> getBlockNumber L = Throws))"
  then show "getTransactionStatus (monitorTransaction L h m) h = Some (failedStatus h)"
    by (auto simp: monitorTransaction_def monitorTry_def getTransactionStatus_def)
  show "status (failedStatus h) = Failed" and "confirmations (failedStatus h) = 0"
    by (simp_all add: failedStatus_def)
next
  assume "\<not> provider m \<or> getTransaction L h = Returns False \<or>
      getTransaction L h = Returns True \<and> wait L h = Returns None"
  then show "monitorTransaction L h m = m"
    by (auto simp: monitorTransaction_def monitorTry_def)
next
  assume a: "provider m \<and> getTransaction L h = Returns True \<and> wait L h = Returns (Some r) \<and>
      getBlockNumber L = Returns currentBlock \<and>
      (receipt_status r \<noteq> Some 1 \<or> \<not> contract m \<or>
       queryFilter L (receipt_blockNumber r) (receipt_blockNumber r) \<noteq> Throws)"
  then show "getTransactionStatus (monitorTransaction L h m) h
      = Some (receiptStatus h r currentBlock)"
    by (auto simp: monitorTransaction_def monitorTry_def getTransactionStatus_def Let_def
        split: outcome.splits)
  show "status (receiptStatus h r currentBlock) = Failed \<longleftrightarrow> receipt_status r \<noteq> Some 1"
    by (simp add: receiptStatus_def)
next
  assume "h' \<noteq> h"
  then show "getTransactionStatus (monitorTransaction L h m) h' = getTransactionStatus m h'"
    by (auto simp: monitorTransaction_def monitorTry_def getTransactionStatus_def Let_def
        split: outcome.splits option.splits)
qed

theorem monitorTransaction_error_marks_failed_witness:
  "provider (ex_manager False) \<and> getTransaction ex_ledger_down ex_hash = Throws \<and>
   getTransactionStatus (monitorTransaction ex_ledger_down ex_hash (ex_manager False)) ex_hash
     = Some (failedStatus ex_hash) \<and>
   getTransaction ex_ledger_unknown ex_hash = Returns False \<and>
   monitorTransaction ex_ledger_unknown ex_hash (ex_manager False) = ex_manager False \<and>
   getTransaction (ex_ledger 5 False) ex_hash = Returns True \<and>
   wait (ex_ledger 5 False) ex_hash = Returns (Some ex_receipt) \<and>
   getBlockNumber (ex_ledger 5 False) = Returns 5 \<and>
   \<not> contract (ex_manager False) \<and>
   getTransactionStatus (monitorTransaction (ex_ledger 5 False) ex_hash (ex_manager False)) ex_hash
     = Some (receiptStatus ex_hash ex_receipt 5) \<and>
   ''0xdef'' \<noteq> ex_hash \<and>
   getTransactionStatus (monitorTransaction ex_ledger_down ex_hash (ex_manager False)) ''0xdef''
     = getTransactionStatus (ex_manager False) ''0xdef''"
proof -
  have a: "provider (ex_manager False)" "\<not> contract (ex_manager False)"
    by (simp_all add: ex_manager_def)
  have b: "getTransaction ex_ledger_down ex_hash = Throws" by (simp add: ex_ledger_down_def)
  have c: "getTransaction ex_ledger_unknown ex_hash = Returns False"
    by (simp add: ex_ledger_unknown_def)
  have d: "getTransaction (ex_ledger 5 False) ex_hash = Returns True"
    "wait (ex_ledger 5 False) ex_hash = Returns (Some ex_receipt)"
    "getBlockNumber (ex_ledger 5 False) = Returns 5"
    by (simp_all add: ex_ledger_def)
  have e: "''0xdef'' \<noteq> ex_hash" by (simp add: ex_hash_def)
  from a b c d e
    monitorTransaction_error_marks_failed
      [of "ex_manager False" ex_ledger_down ex_hash ex_receipt 5 "''0xdef''"]
    monitorTransaction_error_marks_failed
      [of "ex_manager False" ex_ledger_unknown ex_hash ex_receipt 5 "''0xdef''"]
    monitorTransaction_error_marks_failed
      [of "ex_manager False" "ex_ledger 5 False" ex_hash ex_receipt 5 "''0xdef''"]
  show ?thesis by blast
qed

text \<open>
  Claim C5 as stated fails. The handle is cached as Pending, the ledger node cannot be
  reached and reports no outcome at all, and the run sets the cached status to Failed.
\<close>

theorem poll_error_forces_failed:
  "getTransactionStatus (ex_manager False) ex_hash = Some (pendingStatus ex_hash) \<and>
   status (pendingStatus ex_hash) = Pending \<and>
   getTransaction ex_ledger_down ex_hash = Throws \<and>
   map_option status
     (getTransactionStatus (monitorTransaction ex_ledger_down ex_hash (ex_manager False)) ex_hash)
     = Some Failed"
  by (simp add: tracker_defs ex_tracker_defs)

text \<open>
  The run of claim C6 when nothing fails after the receipt: the ledger reports the
  transaction included with receipt \<open>r\<close> and the current block \<open>currentBlock\<close>, and the
  event query (made only for a successful receipt when a contract is set) resolves.
  The cached status is then the one computed from the receipt.
\<close>

lemma monitorTransaction_records_receipt:
  assumes "provider m" and "getTransaction L h = Returns True"
    and "wait L h = Returns (Some r)" and "getBlockNumber L = Returns currentBlock"
    and "receipt_status r \<noteq> Some 1 \<or> \<not> contract m \<or>
         queryFilter L (receipt_blockNumber r) (receipt_blockNumber r) \<noteq> Throws"
  shows "getTransactionStatus (monitorTransaction L h m) h = Some (receiptStatus h r currentBlock)"
  using assms
  by (auto simp: monitorTransaction_def monitorTry_def getTransactionStatus_def Let_def
      split: outcome.splits)

text \<open>
  Claim C6, at the input where the code departs from it. The ledger reports the
  transaction included in block 5 with execution success, the current block is 7, and
  the query for the mint events that follows fails. The claim gives Confirmed with
  7 - 5 + 1 = 3 confirmations; the run ends with Failed and 0 confirmations cached,
  because the \<^verbatim>\<open>catch\<close> block overwrites the status recorded from the receipt.
\<close>

theorem confirmed_receipt_overwritten_by_log_error:
  "wait (ex_ledger 7 True) ex_hash = Returns (Some ex_receipt) \<and>
   receipt_status ex_receipt = Some 1 \<and> receipt_blockNumber ex_receipt = 5 \<and>
   getBlockNumber (ex_ledger 7 True) = Returns 7 \<and>
   getTransactionStatus (monitorTransaction (ex_ledger 7 True) ex_hash (ex_manager True)) ex_hash
     = Some (failedStatus ex_hash) \<and>
   status (failedStatus ex_hash) = Failed \<and> confirmations (failedStatus ex_hash) = 0 \<and>
   status (receiptStatus ex_hash ex_receipt 7) = Confirmed \<and>
   confirmations (receiptStatus ex_hash ex_receipt 7) = 3"
  by (simp add: tracker_defs ex_tracker_defs)

text \<open>
  Claim C10. After \<^verbatim>\<open>clearTransactionHistory()\<close>, \<^verbatim>\<open>getTransactionStatus(h)\<close> is
  \<^verbatim>\<open>null\<close> for every handle \<open>h\<close>, whatever was cached before, a terminal status
  included.
\<close>

theorem clearTransactionHistory_forgets_all:
  "getTransactionStatus (clearTransactionHistory m) h = None"
  by (simp add: getTransactionStatus_def clearTransactionHistory_def)

section \<open>Properties of the proof registry\<close>

subsection \<open>Incrementing a counter\<close>

text \<open>
  The counters are incremented without an overflow check. Below the largest word the
  increment is the successor, and the range of stored ids grows by the new id only.
\<close>

lemma succ_nonzero: "(c :: 'a::len word) \<noteq> - 1 \<Longrightarrow> c + 1 \<noteq> 0"
  using max_word_wrap by blast

lemma unat_succ: "(c :: 'a::len word) \<noteq> - 1 \<Longrightarrow> unat (c + 1) = Suc (unat c)"
  using unatSuc [of c] succ_nonzero [of c] by (simp add: add.commute)

lemma succ_range:
  "(c :: 'a::len word) \<noteq> - 1 \<Longrightarrow> (0 < p \<and> p \<le> c + 1) \<longleftrightarrow> ((0 < p \<and> p \<le> c) \<or> p = c + 1)"
  by (auto simp: word_le_nat_alt word_less_nat_alt unat_succ word_unat_eq_iff)

lemma succ_fresh: "(c :: 'a::len word) \<noteq> - 1 \<Longrightarrow> p \<le> c \<Longrightarrow> p \<noteq> c + 1"
  by (auto simp: word_le_nat_alt unat_succ)

lemma below_limit: "unat (c :: uint256) \<le> n \<Longrightarrow> Suc n < 2 ^ 256 \<Longrightarrow> c \<noteq> - 1"
proof
  assume a: "unat c \<le> n" "Suc n < 2 ^ 256" "c = - 1"
  have "unat (- 1 :: uint256) = 2 ^ 256 - 1"
    by (simp add: unsigned_minus_1_eq_mask mask_eq_exp_minus_1)
  with a show False by simp
qed

subsection \<open>What a successful call does\<close>

text \<open>The state after a successful mint and after a successful submission, in one piece.\<close>

lemma mintNFT_Inr:
  assumes "mintNFT C p r e s = Inr s'"
  shows "s' = s\<lparr>tokenIdCounter := tokenIdCounter s + 1,
                 proofCommitments := (proofCommitments s)
                   (p := (proofCommitments s p)\<lparr>nftTokenId := tokenIdCounter s + 1\<rparr>),
                 owners := (owners s)(tokenIdCounter s + 1 := r),
                 tokenURIs := (if imageUri (eventMetadata s e) \<noteq> []
                    then (tokenURIs s)(tokenIdCounter s + 1 := imageUri (eventMetadata s e))
                    else tokenURIs s),
                 events := events s @ [NFTMinted (tokenIdCounter s + 1) p r e]\<rparr>"
    and "r \<noteq> 0" and "owners s (tokenIdCounter s + 1) = 0"
    and "checkOnERC721Received C r (tokenIdCounter s + 1)"
  using assms
  by (auto simp: mintNFT_def safeMint_def setTokenURI_def Let_def split: if_splits sum.splits)

lemma submitProof_Inr:
  assumes "submitProof C a ts e pd s = Inr (pid, s')"
  shows "pid = proofCounter s + 1"
    and "s' = s\<lparr>tokenIdCounter := tokenIdCounter s + 1,
                 proofCounter := proofCounter s + 1,
                 proofCommitments := (proofCommitments s)
                   (proofCounter s + 1 :=
                      \<lparr>commitment = commitmentOf C a ts e pd, eventId = e, submitter = a,
                       timestamp = ts, isValid = True, nftTokenId = tokenIdCounter s + 1\<rparr>),
                 commitmentToProofId := (commitmentToProofId s)
                   (commitmentOf C a ts e pd := proofCounter s + 1),
                 userProofs := (userProofs s)(a := userProofs s a @ [proofCounter s + 1]),
                 eventProofs := (eventProofs s)(e := eventProofs s e @ [proofCounter s + 1]),
                 owners := (owners s)(tokenIdCounter s + 1 := a),
                 tokenURIs := (if imageUri (eventMetadata s e) \<noteq> []
                    then (tokenURIs s)(tokenIdCounter s + 1 := imageUri (eventMetadata s e))
                    else tokenURIs s),
                 events := events s @
                   [ProofSubmitted (proofCounter s + 1) (commitmentOf C a ts e pd) e a,
                    NFTMinted (tokenIdCounter s + 1) (proofCounter s + 1) a e]\<rparr>"
    and "e \<noteq> []" and "pd \<noteq> []" and "commitmentToProofId s (commitmentOf C a ts e pd) = 0"
    and "a \<noteq> 0" and "owners s (tokenIdCounter s + 1) = 0"
  using assms
  by (auto simp: submitProof_def bytes_of_string_def Let_def
      mintNFT_def safeMint_def setTokenURI_def
      split: if_splits sum.splits)



subsection \<open>The invariant\<close>

text \<open>The parts of the invariant, one rule each.\<close>

lemma invD_counters: "registry_inv s \<Longrightarrow> tokenIdCounter s = proofCounter s"
  by (simp add: registry_inv_def)

lemma invD_stored:
  assumes "registry_inv s" and "storedProofId s p"
  shows "nftTokenId (proofCommitments s p) = p"
    and "commitmentToProofId s (commitment (proofCommitments s p)) = p"
    and "p \<in> set (userProofs s (submitter (proofCommitments s p)))"
    and "NFTMinted p p (submitter (proofCommitments s p)) (eventId (proofCommitments s p))
          \<in> set (events s)"
  using assms unfolding registry_inv_def by blast+

lemma invD_unstored:
  "registry_inv s \<Longrightarrow> \<not> storedProofId s p \<Longrightarrow> proofCommitments s p = emptyProofCommitment"
  unfolding registry_inv_def by blast

lemma invD_commitment:
  assumes "registry_inv s" and "commitmentToProofId s c \<noteq> 0"
  shows "storedProofId s (commitmentToProofId s c)"
    and "commitment (proofCommitments s (commitmentToProofId s c)) = c"
  using assms unfolding registry_inv_def by blast+

lemma invD_owners: "registry_inv s \<Longrightarrow> owners s t \<noteq> 0 \<longleftrightarrow> storedProofId s t"
  unfolding registry_inv_def by blast

lemma invD_userProofs:
  assumes "registry_inv s" and "p \<in> set (userProofs s u)"
  shows "storedProofId s p" and "submitter (proofCommitments s p) = u"
  using assms unfolding registry_inv_def by blast+

lemma invD_submitted:
  "registry_inv s \<Longrightarrow> ProofSubmitted p c e u \<in> set (events s) \<Longrightarrow> storedProofId s p"
  unfolding registry_inv_def by blast

lemma invD_minted:
  assumes "registry_inv s" and "NFTMinted t p r e \<in> set (events s)"
  shows "storedProofId s p" and "t = p"
  using assms unfolding registry_inv_def by blast+

text \<open>The invariant holds after the constructor, and every call keeps it.\<close>

lemma storedProofId_constructor: "\<not> storedProofId (constructor d uri) p"
  by (auto simp: constructor_def storedProofId_def word_le_nat_alt word_less_nat_alt)

lemma registry_inv_constructor: "registry_inv (constructor d uri)"
  unfolding registry_inv_def
  by (simp add: storedProofId_constructor) (simp add: constructor_def)

lemma storedProofId_succ:
  "proofCounter s \<noteq> - 1 \<Longrightarrow> proofCounter s' = proofCounter s + 1 \<Longrightarrow>
   storedProofId s' p \<longleftrightarrow> storedProofId s p \<or> p = proofCounter s + 1"
  by (simp add: storedProofId_def succ_range)

lemma storedProofId_fresh:
  "proofCounter s \<noteq> - 1 \<Longrightarrow> storedProofId s p \<Longrightarrow> p \<noteq> proofCounter s + 1"
  by (simp add: storedProofId_def succ_fresh)



lemma submitProof_inv:
  assumes inv: "registry_inv s" and lim: "proofCounter s \<noteq> - 1"
    and ok: "submitProof C a ts e pd s = Inr (pid, s')"
  shows "registry_inv s'"
proof -
  let ?n = "proofCounter s + 1"
  let ?c = "commitmentOf C a ts e pd"
  let ?r = "\<lparr>commitment = ?c, eventId = e, submitter = a, timestamp = ts, isValid = True,
             nftTokenId = ?n\<rparr>"
  note f = submitProof_Inr [OF ok]
  have tk: "tokenIdCounter s = proofCounter s" using inv by (rule invD_counters)
  have pc: "proofCounter s' = ?n" by (simp add: f(2))
  have tc: "tokenIdCounter s' = ?n" by (simp add: f(2) tk)
  have rc: "proofCommitments s' = (proofCommitments s)(?n := ?r)" by (simp add: f(2) tk)
  have ctp: "commitmentToProofId s' = (commitmentToProofId s)(?c := ?n)" by (simp add: f(2))
  have up: "userProofs s' = (userProofs s)(a := userProofs s a @ [?n])" by (simp add: f(2))
  have ow: "owners s' = (owners s)(?n := a)" by (simp add: f(2) tk)
  have ev: "events s' = events s @ [ProofSubmitted ?n ?c e a, NFTMinted ?n ?n a e]"
    by (simp add: f(2) tk)
  have st: "\<And>p. storedProofId s' p \<longleftrightarrow> storedProofId s p \<or> p = ?n"
    using lim pc by (rule storedProofId_succ)
  have fr: "\<And>p. storedProofId s p \<Longrightarrow> p \<noteq> ?n"
    using lim by (rule storedProofId_fresh)
  have nz: "?n \<noteq> 0" using lim by (rule succ_nonzero)
  have nst: "\<not> storedProofId s ?n" using fr by blast
  have cfresh: "commitment (proofCommitments s p) \<noteq> ?c" if "storedProofId s p" for p
  proof
    assume "commitment (proofCommitments s p) = ?c"
    with invD_stored(2) [OF inv that] f(5) have "p = 0" by simp
    with that show False by (simp add: storedProofId_def)
  qed
  have old: "proofCommitments s' p = proofCommitments s p" if "storedProofId s p" for p
    using fr [OF that] by (simp add: rc)
  show ?thesis
    unfolding registry_inv_def
  proof (intro conjI allI impI)
    show "tokenIdCounter s' = proofCounter s'" by (simp add: pc tc)
  next
    fix p assume "storedProofId s' p"
    then consider "storedProofId s p" | "p = ?n" using st by blast
    then show "nftTokenId (proofCommitments s' p) = p"
    proof cases
      case 1 then show ?thesis using invD_stored(1) [OF inv 1] by (simp add: old)
    next
      case 2 then show ?thesis by (simp add: rc)
    qed
  next
    fix p assume "storedProofId s' p"
    then consider "storedProofId s p" | "p = ?n" using st by blast
    then show "commitmentToProofId s' (commitment (proofCommitments s' p)) = p"
    proof cases
      case 1 then show ?thesis using invD_stored(2) [OF inv 1] cfresh [OF 1] by (simp add: old ctp)
    next
      case 2 then show ?thesis by (simp add: rc ctp)
    qed
  next
    fix p assume "storedProofId s' p"
    then consider "storedProofId s p" | "p = ?n" using st by blast
    then show "p \<in> set (userProofs s' (submitter (proofCommitments s' p)))"
    proof cases
      case 1 then show ?thesis using invD_stored(3) [OF inv 1] by (auto simp: old up)
    next
      case 2 then show ?thesis by (simp add: rc up)
    qed
  next
    fix p assume "storedProofId s' p"
    then consider "storedProofId s p" | "p = ?n" using st by blast
    then show "NFTMinted p p (submitter (proofCommitments s' p)) (eventId (proofCommitments s' p))
          \<in> set (events s')"
    proof cases
      case 1 then show ?thesis using invD_stored(4) [OF inv 1] by (simp add: old ev)
    next
      case 2 then show ?thesis by (simp add: rc ev)
    qed
  next
    fix p assume "\<not> storedProofId s' p"
    then have "\<not> storedProofId s p" "p \<noteq> ?n" using st by blast+
    then show "proofCommitments s' p = emptyProofCommitment"
      using invD_unstored [OF inv] by (simp add: rc)
  next
    fix c assume a: "commitmentToProofId s' c \<noteq> 0"
    show "storedProofId s' (commitmentToProofId s' c)"
    proof (cases "c = ?c")
      case True then show ?thesis by (simp add: st ctp)
    next
      case False
      then have "commitmentToProofId s' c = commitmentToProofId s c" by (simp add: ctp)
      with a invD_commitment(1) [OF inv, of c] show ?thesis by (simp add: st)
    qed
  next
    fix c assume a: "commitmentToProofId s' c \<noteq> 0"
    show "commitment (proofCommitments s' (commitmentToProofId s' c)) = c"
    proof (cases "c = ?c")
      case True then show ?thesis by (simp add: ctp rc)
    next
      case False
      then have eq: "commitmentToProofId s' c = commitmentToProofId s c" by (simp add: ctp)
      with a invD_commitment [OF inv, of c] show ?thesis by (simp add: old)
    qed
  next
    fix t show "owners s' t \<noteq> 0 \<longleftrightarrow> storedProofId s' t"
      using invD_owners [OF inv, of t] f(6) nst by (auto simp: st ow)
  next
    fix u p assume "p \<in> set (userProofs s' u)"
    then consider "p \<in> set (userProofs s u)" | "p = ?n" "u = a"
      by (auto simp: up split: if_splits)
    then show "storedProofId s' p"
    proof cases
      case 1 then show ?thesis using invD_userProofs(1) [OF inv 1] by (simp add: st)
    next
      case 2 then show ?thesis by (simp add: st)
    qed
  next
    fix u p assume "p \<in> set (userProofs s' u)"
    then consider "p \<in> set (userProofs s u)" | "p = ?n" "u = a"
      by (auto simp: up split: if_splits)
    then show "submitter (proofCommitments s' p) = u"
    proof cases
      case 1
      then show ?thesis using invD_userProofs [OF inv 1] by (simp add: old)
    next
      case 2 then show ?thesis by (simp add: rc)
    qed
  next
    fix p c e' u assume "ProofSubmitted p c e' u \<in> set (events s')"
    then show "storedProofId s' p"
      using invD_submitted [OF inv, of p c e' u] by (auto simp: st ev)
  next
    fix t p r e' assume "NFTMinted t p r e' \<in> set (events s')"
    then show "storedProofId s' p"
      using invD_minted(1) [OF inv, of t p r e'] by (auto simp: st ev)
  next
    fix t p r e' assume "NFTMinted t p r e' \<in> set (events s')"
    then show "t = p"
      using invD_minted(2) [OF inv, of t p r e'] by (auto simp: ev)
  qed
qed

text \<open>
  The state after a successful validation, without and with a mint. Under the invariant
  the record has a credential, so there is no mint.
\<close>

lemma validateProof_Inr:
  assumes "validateProof C a p v s = Inr s'"
  shows "a = owner s" and "storedProofId s p"
    and "\<not> (v \<and> nftTokenId (proofCommitments s p) = 0) \<Longrightarrow>
         s' = s\<lparr>proofCommitments := (proofCommitments s)
                    (p := (proofCommitments s p)\<lparr>isValid := v\<rparr>),
                 events := events s @ [ProofValidated p v]\<rparr>"
    and "v \<and> nftTokenId (proofCommitments s p) = 0 \<Longrightarrow>
         s' = s\<lparr>tokenIdCounter := tokenIdCounter s + 1,
                 proofCommitments := (proofCommitments s)
                    (p := (proofCommitments s p)\<lparr>isValid := True, nftTokenId := tokenIdCounter s + 1\<rparr>),
                 owners := (owners s)(tokenIdCounter s + 1 := submitter (proofCommitments s p)),
                 tokenURIs := (if imageUri (eventMetadata s (eventId (proofCommitments s p))) \<noteq> []
                    then (tokenURIs s)(tokenIdCounter s + 1 :=
                           imageUri (eventMetadata s (eventId (proofCommitments s p))))
                    else tokenURIs s),
                 events := events s @ [ProofValidated p v,
                    NFTMinted (tokenIdCounter s + 1) p (submitter (proofCommitments s p))
                      (eventId (proofCommitments s p))]\<rparr>"
  using assms
  by (auto simp: validateProof_def storedProofId_def Let_def mintNFT_def safeMint_def setTokenURI_def
      split: if_splits sum.splits)

lemma validateProof_inv:
  assumes inv: "registry_inv s" and ok: "validateProof C a p v s = Inr s'"
  shows "registry_inv s'" and "proofCounter s' = proofCounter s"
proof -
  note f = validateProof_Inr [OF ok]
  have "nftTokenId (proofCommitments s p) = p" using inv f(2) by (rule invD_stored(1))
  moreover have "p \<noteq> 0" using f(2) by (auto simp: storedProofId_def)
  ultimately have "\<not> (v \<and> nftTokenId (proofCommitments s p) = 0)" by simp
  from f(3) [OF this]
  have s': "s' = s\<lparr>proofCommitments := (proofCommitments s)
                    (p := (proofCommitments s p)\<lparr>isValid := v\<rparr>),
                 events := events s @ [ProofValidated p v]\<rparr>" .
  show pc: "proofCounter s' = proofCounter s" by (simp add: s')
  have st: "\<And>q. storedProofId s' q = storedProofId s q" by (simp add: storedProofId_def pc)
  have rc: "\<And>q. proofCommitments s' q =
      (if q = p then (proofCommitments s p)\<lparr>isValid := v\<rparr> else proofCommitments s q)"
    by (simp add: s')
  have other: "tokenIdCounter s' = tokenIdCounter s" "commitmentToProofId s' = commitmentToProofId s"
    "userProofs s' = userProofs s" "owners s' = owners s"
    "events s' = events s @ [ProofValidated p v]"
    by (simp_all add: s')
  show "registry_inv s'"
    unfolding registry_inv_def st other
  proof (intro conjI allI impI)
    show "tokenIdCounter s = proofCounter s'" using invD_counters [OF inv] by (simp add: pc)
  next
    fix q assume q: "storedProofId s q"
    from invD_stored [OF inv q]
    show "nftTokenId (proofCommitments s' q) = q"
      and "commitmentToProofId s (commitment (proofCommitments s' q)) = q"
      and "q \<in> set (userProofs s (submitter (proofCommitments s' q)))"
      and "NFTMinted q q (submitter (proofCommitments s' q)) (eventId (proofCommitments s' q))
            \<in> set (events s @ [ProofValidated p v])"
      by (auto simp: rc)
  next
    fix q assume q: "\<not> storedProofId s q"
    with f(2) have "q \<noteq> p" by blast
    with invD_unstored [OF inv q] show "proofCommitments s' q = emptyProofCommitment"
      by (simp add: rc)
  next
    fix c assume c: "commitmentToProofId s c \<noteq> 0"
    from invD_commitment [OF inv c]
    show "storedProofId s (commitmentToProofId s c)"
      and "commitment (proofCommitments s' (commitmentToProofId s c)) = c"
      by (auto simp: rc)
  next
    fix t show "owners s t \<noteq> 0 \<longleftrightarrow> storedProofId s t" using inv by (rule invD_owners)
  next
    fix u q assume q: "q \<in> set (userProofs s u)"
    from invD_userProofs [OF inv q]
    show "storedProofId s q" and "submitter (proofCommitments s' q) = u"
      by (auto simp: rc)
  next
    fix q c e u assume "ProofSubmitted q c e u \<in> set (events s @ [ProofValidated p v])"
    then show "storedProofId s q" using invD_submitted [OF inv, of q c e u] by simp
  next
    fix t q r e assume "NFTMinted t q r e \<in> set (events s @ [ProofValidated p v])"
    then show "storedProofId s q" and "t = q" using invD_minted [OF inv, of t q r e] by simp_all
  qed
qed

lemma setEventMetadata_inv:
  assumes inv: "registry_inv s" and ok: "setEventMetadata a e n d i l t s = Inr s'"
  shows "registry_inv s'" and "proofCounter s' = proofCounter s"
proof -
  from ok have s': "s' = s\<lparr>eventMetadata := (eventMetadata s)
        (e := \<lparr>eventName = n, eventDescription = d, imageUri = i, location = l, eventDate = t\<rparr>),
      events := events s @ [EventMetadataSet e n i]\<rparr>"
    by (auto simp: setEventMetadata_def Let_def split: if_splits)
  show "proofCounter s' = proofCounter s" by (simp add: s')
  show "registry_inv s'"
    using inv unfolding registry_inv_def storedProofId_def by (simp add: s')
qed

lemma setBaseURI_inv:
  assumes inv: "registry_inv s" and ok: "setBaseURI a uri s = Inr s'"
  shows "registry_inv s'" and "proofCounter s' = proofCounter s"
proof -
  from ok have s': "s' = s\<lparr>baseTokenURI := uri\<rparr>"
    by (auto simp: setBaseURI_def split: if_splits)
  show "proofCounter s' = proofCounter s" by (simp add: s')
  show "registry_inv s'"
    using inv unfolding registry_inv_def storedProofId_def by (simp add: s')
qed

text \<open>
  Transactions keep the invariant as long as the proof counter can still be incremented;
  each raises the counter by at most one, so a list of fewer than \<open>2 ^ 256\<close>
  transactions from the constructor never reaches the limit.
\<close>

lemma exec_inv:
  assumes inv: "registry_inv s" and lim: "proofCounter s \<noteq> - 1"
  shows "registry_inv (exec C c s)"
    and "unat (proofCounter (exec C c s)) \<le> Suc (unat (proofCounter s))"
proof -
  have "registry_inv (exec C c s) \<and> unat (proofCounter (exec C c s)) \<le> Suc (unat (proofCounter s))"
  proof (cases c)
    case (SubmitProof a ts e pd)
    show ?thesis
    proof (cases "submitProof C a ts e pd s")
      case (Inl err) then show ?thesis using inv by (simp add: SubmitProof)
    next
      case (Inr res)
      obtain pid s' where res: "res = (pid, s')" by (cases res)
      have ok: "submitProof C a ts e pd s = Inr (pid, s')" using Inr res by simp
      have "proofCounter s' = proofCounter s + 1" by (simp add: submitProof_Inr(2) [OF ok])
      then have "unat (proofCounter s') = Suc (unat (proofCounter s))"
        using lim by (simp add: unat_succ)
      with submitProof_inv [OF inv lim ok] show ?thesis by (simp add: SubmitProof ok)
    qed
  next
    case (ValidateProof a p v)
    show ?thesis
    proof (cases "validateProof C a p v s")
      case (Inl err) then show ?thesis using inv by (simp add: ValidateProof)
    next
      case (Inr s')
      with validateProof_inv [OF inv Inr] show ?thesis by (simp add: ValidateProof)
    qed
  next
    case (SetEventMetadata a e n d i l t)
    show ?thesis
    proof (cases "setEventMetadata a e n d i l t s")
      case (Inl err) then show ?thesis using inv by (simp add: SetEventMetadata)
    next
      case (Inr s')
      with setEventMetadata_inv [OF inv Inr] show ?thesis by (simp add: SetEventMetadata)
    qed
  next
    case (SetBaseURI a uri)
    show ?thesis
    proof (cases "setBaseURI a uri s")
      case (Inl err) then show ?thesis using inv by (simp add: SetBaseURI)
    next
      case (Inr s')
      with setBaseURI_inv [OF inv Inr] show ?thesis by (simp add: SetBaseURI)
    qed
  qed
  then show "registry_inv (exec C c s)"
    and "unat (proofCounter (exec C c s)) \<le> Suc (unat (proofCounter s))" by simp_all
qed

lemma run_inv:
  "registry_inv s \<Longrightarrow> unat (proofCounter s) \<le> n \<Longrightarrow> n + length cs < 2 ^ 256 \<Longrightarrow>
   registry_inv (run C cs s) \<and> unat (proofCounter (run C cs s)) \<le> n + length cs"
proof (induction cs arbitrary: s n)
  case Nil
  then show ?case by simp
next
  case (Cons c cs)
  have lim: "proofCounter s \<noteq> - 1"
    using Cons.prems(2,3) by (intro below_limit [of _ n]) simp_all
  from exec_inv [OF Cons.prems(1) lim, of C c] Cons.prems(2)
  have "registry_inv (exec C c s)" and "unat (proofCounter (exec C c s)) \<le> Suc n" by simp_all
  from Cons.IH [OF this] Cons.prems(3) show ?case by simp
qed

lemma reachable_inv:
  assumes "length cs < 2 ^ 256"
  shows "registry_inv (run C cs (constructor d uri))"
    and "unat (proofCounter (run C cs (constructor d uri))) \<le> length cs"
  using run_inv [of "constructor d uri" 0 cs C] assms
  by (simp_all add: registry_inv_constructor) (simp_all add: constructor_def)

text \<open>A stored proof id stays stored.\<close>

lemma run_append: "run C (cs @ cs') s = run C cs' (run C cs s)"
  by (induction cs arbitrary: s) simp_all

lemma exec_mono:
  assumes inv: "registry_inv s" and lim: "proofCounter s \<noteq> - 1" and p: "storedProofId s p"
  shows "storedProofId (exec C c s) p"
proof (cases c)
  case (SubmitProof a ts e pd)
  show ?thesis
  proof (cases "submitProof C a ts e pd s")
    case (Inl err) then show ?thesis using p by (simp add: SubmitProof)
  next
    case (Inr res)
    obtain pid s' where res: "res = (pid, s')" by (cases res)
    have ok: "submitProof C a ts e pd s = Inr (pid, s')" using Inr res by simp
    have "proofCounter s' = proofCounter s + 1" by (simp add: submitProof_Inr(2) [OF ok])
    from storedProofId_succ [OF lim this] p show ?thesis by (simp add: SubmitProof ok)
  qed
next
  case (ValidateProof a q v)
  show ?thesis
  proof (cases "validateProof C a q v s")
    case (Inl err) then show ?thesis using p by (simp add: ValidateProof)
  next
    case (Inr s')
    with validateProof_inv(2) [OF inv Inr] p show ?thesis
      by (simp add: ValidateProof storedProofId_def)
  qed
next
  case (SetEventMetadata a e n d i l t)
  show ?thesis
  proof (cases "setEventMetadata a e n d i l t s")
    case (Inl err) then show ?thesis using p by (simp add: SetEventMetadata)
  next
    case (Inr s')
    with setEventMetadata_inv(2) [OF inv Inr] p show ?thesis
      by (simp add: SetEventMetadata storedProofId_def)
  qed
next
  case (SetBaseURI a uri)
  show ?thesis
  proof (cases "setBaseURI a uri s")
    case (Inl err) then show ?thesis using p by (simp add: SetBaseURI)
  next
    case (Inr s')
    with setBaseURI_inv(2) [OF inv Inr] p show ?thesis
      by (simp add: SetBaseURI storedProofId_def)
  qed
qed

lemma run_mono:
  "registry_inv s \<Longrightarrow> unat (proofCounter s) \<le> n \<Longrightarrow> n + length cs < 2 ^ 256 \<Longrightarrow>
   storedProofId s p \<Longrightarrow> storedProofId (run C cs s) p"
proof (induction cs arbitrary: s n)
  case Nil
  then show ?case by simp
next
  case (Cons c cs)
  have lim: "proofCounter s \<noteq> - 1"
    using Cons.prems(2,3) by (intro below_limit [of _ n]) simp_all
  from exec_inv [OF Cons.prems(1) lim, of C c] Cons.prems(2)
  have 1: "registry_inv (exec C c s)" and 2: "unat (proofCounter (exec C c s)) \<le> Suc n" by simp_all
  have 3: "storedProofId (exec C c s) p" using Cons.prems(1) lim Cons.prems(4) by (rule exec_mono)
  from Cons.IH [OF 1 2 _ 3] Cons.prems(3) show ?case by simp
qed

subsection \<open>Evaluating the examples\<close>

lemma length_encodePacked:
  "length (encodePacked e pd a ts) = length e + length pd + 52"
  by (simp add: encodePacked_def bytes_of_string_def be_bytes_def)

lemmas registry_eval_defs =
  ex_registry_def ex_submit_def submitProof_def validateProof_def mintNFT_def safeMint_def
  setTokenURI_def commitmentOf_def length_encodePacked Let_def constructor_def ex_chain_def
  ex_proofA_def bytes_of_string_def emptyProofMetadata_def emptyProofCommitment_def

lemma ex_first:
  "submitProof ex_chain 1 100 ''eth-summit'' ex_proofA (ex_registry []) = Inr (1, ex_registry [ex_submit])"
  by (simp add: registry_eval_defs)

lemma ex_stored_iff: "storedProofId (ex_registry [ex_submit]) p \<longleftrightarrow> p = 1"
proof -
  have "proofCounter (ex_registry []) \<noteq> - 1" by (simp add: registry_eval_defs)
  moreover have "proofCounter (ex_registry [ex_submit]) = proofCounter (ex_registry []) + 1"
    by (simp add: registry_eval_defs)
  ultimately have "storedProofId (ex_registry [ex_submit]) p \<longleftrightarrow>
      storedProofId (ex_registry []) p \<or> p = proofCounter (ex_registry []) + 1"
    by (rule storedProofId_succ)
  moreover have "\<not> storedProofId (ex_registry []) p"
    by (simp add: ex_registry_def storedProofId_constructor)
  moreover have "proofCounter (ex_registry []) + 1 = 1" by (simp add: registry_eval_defs)
  ultimately show ?thesis by simp
qed

subsection \<open>Duplicate commitments\<close>

text \<open>
  The checks for empty input run before the commitment is computed, and the packed
  encoding does not separate the event id from the proof: a submission with an empty
  event id has the commitment of the submission that moves the first bytes of its
  proof into the event id, and is rejected for its empty event id.
\<close>

lemma empty_input_checked_first:
  "submitProof C a ts [] pd s = Inl EmptyEventId"
  "e \<noteq> [] \<Longrightarrow> submitProof C a ts e [] s = Inl EmptyPayload"
  "commitmentOf C a ts [] (bytes_of_string e @ pd) = commitmentOf C a ts e pd"
  by (simp_all add: submitProof_def bytes_of_string_def commitmentOf_def encodePacked_def)

lemma duplicate_rejected:
  assumes "commitmentToProofId s (commitmentOf C a ts e pd) \<noteq> 0"
  shows "\<exists>err. submitProof C a ts e pd s = Inl err"
    and "exec C (SubmitProof a ts e pd) s = s"
    and "e \<noteq> [] \<Longrightarrow> pd \<noteq> [] \<Longrightarrow> submitProof C a ts e pd s = Inl DuplicateCommitment"
  using assms by (auto simp: submitProof_def bytes_of_string_def Let_def)

lemma one_record_per_commitment:
  assumes "registry_inv s" and "storedProofId s p" and "storedProofId s q"
    and "commitment (proofCommitments s p) = commitment (proofCommitments s q)"
  shows "p = q"
proof -
  have "p = commitmentToProofId s (commitment (proofCommitments s p))"
    using invD_stored(2) [OF assms(1,2)] by (rule sym)
  also have "\<dots> = commitmentToProofId s (commitment (proofCommitments s q))"
    by (simp only: assms(4))
  also have "\<dots> = q" using assms(1,3) by (rule invD_stored(2))
  finally show ?thesis .
qed

lemma resubmission_rejected:
  assumes inv: "registry_inv s" and lim: "proofCounter s \<noteq> - 1"
    and ok: "submitProof C a ts e pd s = Inr (pid, s')"
  shows "submitProof C a ts e pd s' = Inl DuplicateCommitment"
    and "storedProofId s' p \<and> commitment (proofCommitments s' p) = commitmentOf C a ts e pd
         \<longleftrightarrow> p = pid"
proof -
  note f = submitProof_Inr [OF ok]
  have inv': "registry_inv s'" using inv lim ok by (rule submitProof_inv)
  have pc: "proofCounter s' = proofCounter s + 1" by (simp add: f(2))
  have ctp: "commitmentToProofId s' (commitmentOf C a ts e pd) = pid" by (simp add: f(2) f(1))
  have nz: "pid \<noteq> 0" using lim by (simp add: f(1) succ_nonzero)
  have st: "storedProofId s' pid"
    using storedProofId_succ [OF lim pc, of pid] by (simp add: f(1))
  have cm: "commitment (proofCommitments s' pid) = commitmentOf C a ts e pd"
    by (simp add: f(2) f(1))
  from ctp nz have "commitmentToProofId s' (commitmentOf C a ts e pd) \<noteq> 0" by simp
  from duplicate_rejected(3) [OF this f(3) f(4)]
  show "submitProof C a ts e pd s' = Inl DuplicateCommitment" .
  show "storedProofId s' p \<and> commitment (proofCommitments s' p) = commitmentOf C a ts e pd
         \<longleftrightarrow> p = pid"
    using one_record_per_commitment [OF inv' _ st, of p] st cm by auto
qed

text \<open>
  Claim C1. A submission whose commitment is already indexed fails and changes nothing;
  the failure is \<open>DuplicateCommitment\<close> whenever the commitment gets computed, that is
  for a non-empty event id and a non-empty proof (the two checks for empty input come
  first in the source). In a state reached by fewer than \<open>2 ^ 256\<close> transactions no
  two stored records carry the same commitment. And when a submission succeeds in
  such a state, the same submission again (same event id, proof, sender and block time)
  fails with \<open>DuplicateCommitment\<close>, and the record just stored is the only stored
  record with that commitment.
\<close>

theorem submitProof_rejects_duplicate_commitment:
  "(commitmentToProofId s (commitmentOf C a ts e pd) \<noteq> 0 \<longrightarrow>
      (\<exists>err. submitProof C a ts e pd s = Inl err) \<and> exec C (SubmitProof a ts e pd) s = s) \<and>
   (commitmentToProofId s (commitmentOf C a ts e pd) \<noteq> 0 \<and> e \<noteq> [] \<and> pd \<noteq> [] \<longrightarrow>
      submitProof C a ts e pd s = Inl DuplicateCommitment) \<and>
   (length cs < 2 ^ 256 \<longrightarrow>
      (\<forall>p q. storedProofId (run C cs (constructor d uri)) p \<and>
             storedProofId (run C cs (constructor d uri)) q \<and>
             commitment (proofCommitments (run C cs (constructor d uri)) p) =
             commitment (proofCommitments (run C cs (constructor d uri)) q) \<longrightarrow> p = q)) \<and>
   (Suc (length cs) < 2 ^ 256 \<and>
    submitProof C a ts e pd (run C cs (constructor d uri)) = Inr (pid, s') \<longrightarrow>
      submitProof C a ts e pd s' = Inl DuplicateCommitment \<and>
      (\<forall>p. storedProofId s' p \<and> commitment (proofCommitments s' p) = commitmentOf C a ts e pd
            \<longleftrightarrow> p = pid))"
proof (intro conjI impI allI)
  assume "commitmentToProofId s (commitmentOf C a ts e pd) \<noteq> 0"
  then show "\<exists>err. submitProof C a ts e pd s = Inl err"
    and "exec C (SubmitProof a ts e pd) s = s"
    by (rule duplicate_rejected)+
next
  assume "commitmentToProofId s (commitmentOf C a ts e pd) \<noteq> 0 \<and> e \<noteq> [] \<and> pd \<noteq> []"
  then show "submitProof C a ts e pd s = Inl DuplicateCommitment"
    using duplicate_rejected(3) by blast
next
  fix p q
  assume len: "length cs < 2 ^ 256"
    and pq: "storedProofId (run C cs (constructor d uri)) p \<and>
             storedProofId (run C cs (constructor d uri)) q \<and>
             commitment (proofCommitments (run C cs (constructor d uri)) p) =
             commitment (proofCommitments (run C cs (constructor d uri)) q)"
  from reachable_inv(1) [OF len] pq show "p = q"
    using one_record_per_commitment by blast
next
  assume h: "Suc (length cs) < 2 ^ 256 \<and>
    submitProof C a ts e pd (run C cs (constructor d uri)) = Inr (pid, s')"
  then have len: "length cs < 2 ^ 256" by simp
  have lim: "proofCounter (run C cs (constructor d uri)) \<noteq> - 1"
    using reachable_inv(2) [OF len] h by (intro below_limit [of _ "length cs"]) simp_all
  from resubmission_rejected [OF reachable_inv(1) [OF len] lim] h
  show "submitProof C a ts e pd s' = Inl DuplicateCommitment" by blast
  fix p
  from resubmission_rejected(2) [OF reachable_inv(1) [OF len] lim] h
  show "storedProofId s' p \<and> commitment (proofCommitments s' p) = commitmentOf C a ts e pd
            \<longleftrightarrow> p = pid" by blast
qed

lemma ex_second:
  "commitmentToProofId (ex_registry [ex_submit]) (commitmentOf ex_chain 1 100 ''eth-summit'' ex_proofA) = 1"
  by (simp add: registry_eval_defs)

theorem submitProof_rejects_duplicate_commitment_witness:
  "Suc (length ([] :: call list)) < 2 ^ 256 \<and>
   submitProof ex_chain 1 100 ''eth-summit'' ex_proofA (run ex_chain [] (constructor 7 ''ipfs://base/''))
     = Inr (1, ex_registry [ex_submit]) \<and>
   commitmentToProofId (ex_registry [ex_submit])
     (commitmentOf ex_chain 1 100 ''eth-summit'' ex_proofA) \<noteq> 0 \<and>
   ''eth-summit'' \<noteq> [] \<and> ex_proofA \<noteq> [] \<and>
   submitProof ex_chain 1 100 ''eth-summit'' ex_proofA (ex_registry [ex_submit])
     = Inl DuplicateCommitment \<and>
   exec ex_chain (SubmitProof 1 100 ''eth-summit'' ex_proofA) (ex_registry [ex_submit])
     = ex_registry [ex_submit]"
proof -
  have a: "submitProof ex_chain 1 100 ''eth-summit'' ex_proofA
      (run ex_chain [] (constructor 7 ''ipfs://base/'')) = Inr (1, ex_registry [ex_submit])"
    using ex_first by (simp add: ex_registry_def)
  have b: "commitmentToProofId (ex_registry [ex_submit])
     (commitmentOf ex_chain 1 100 ''eth-summit'' ex_proofA) \<noteq> 0"
    by (simp add: ex_second)
  have c: "ex_proofA \<noteq> []" by (simp add: ex_proofA_def)
  have d: "Suc (length ([] :: call list)) < 2 ^ 256" by simp
  from a b c d
    submitProof_rejects_duplicate_commitment
      [of "ex_registry [ex_submit]" ex_chain 1 100 "''eth-summit''" ex_proofA "[]" 7 "''ipfs://base/''"
          1 "ex_registry [ex_submit]"]
  show ?thesis by simp
qed

subsection \<open>Credentials and their records\<close>

lemma credential_iff_record:
  assumes inv: "registry_inv s"
  shows "tokenExists s t \<longleftrightarrow>
     (\<exists>p. storedProofId s p \<and> nftTokenId (proofCommitments s p) = t \<and> t \<noteq> 0)"
proof
  assume "tokenExists s t"
  then have st: "storedProofId s t" using invD_owners [OF inv, of t] by (simp add: tokenExists_def)
  then have "t \<noteq> 0" by (auto simp: storedProofId_def)
  with st invD_stored(1) [OF inv st] show
    "\<exists>p. storedProofId s p \<and> nftTokenId (proofCommitments s p) = t \<and> t \<noteq> 0"
    by blast
next
  assume "\<exists>p. storedProofId s p \<and> nftTokenId (proofCommitments s p) = t \<and> t \<noteq> 0"
  then obtain p where p: "storedProofId s p" and t: "nftTokenId (proofCommitments s p) = t"
    by blast
  from invD_stored(1) [OF inv p] t have "p = t" by simp
  with p show "tokenExists s t" using invD_owners [OF inv, of t] by (simp add: tokenExists_def)
qed

lemma binding_injective:
  assumes "registry_inv s" and "storedProofId s p" and "storedProofId s q"
    and "nftTokenId (proofCommitments s p) = nftTokenId (proofCommitments s q)"
  shows "p = q"
proof -
  have "p = nftTokenId (proofCommitments s p)"
    using invD_stored(1) [OF assms(1,2)] by (rule sym)
  also have "\<dots> = nftTokenId (proofCommitments s q)" by (rule assms(4))
  also have "\<dots> = q" using assms(1,3) by (rule invD_stored(1))
  finally show ?thesis .
qed

text \<open>
  Claim C2, as amended. In a state reached by fewer than \<open>2 ^ 256\<close> transactions, a
  credential exists exactly when some stored record has its token id as
  \<open>nftTokenId\<close>, whatever the \<open>isValid\<close> flag of that record says; no two stored
  records share a credential; and after any further transactions every record stored
  now still carries the same \<open>nftTokenId\<close>, and that credential still exists.
\<close>

theorem credential_bound_to_one_record:
  "length (cs @ cs') < 2 ^ 256 \<longrightarrow>
     (\<forall>t. tokenExists (run C cs (constructor d uri)) t \<longleftrightarrow>
        (\<exists>p. storedProofId (run C cs (constructor d uri)) p \<and>
             nftTokenId (proofCommitments (run C cs (constructor d uri)) p) = t \<and> t \<noteq> 0)) \<and>
     (\<forall>p q. storedProofId (run C cs (constructor d uri)) p \<and>
            storedProofId (run C cs (constructor d uri)) q \<and>
            nftTokenId (proofCommitments (run C cs (constructor d uri)) p) =
            nftTokenId (proofCommitments (run C cs (constructor d uri)) q) \<longrightarrow> p = q) \<and>
     (\<forall>p. storedProofId (run C cs (constructor d uri)) p \<longrightarrow>
        nftTokenId (proofCommitments (run C (cs @ cs') (constructor d uri)) p) =
        nftTokenId (proofCommitments (run C cs (constructor d uri)) p) \<and>
        tokenExists (run C (cs @ cs') (constructor d uri))
          (nftTokenId (proofCommitments (run C cs (constructor d uri)) p)))"
proof
  let ?s = "run C cs (constructor d uri)"
  let ?s' = "run C (cs @ cs') (constructor d uri)"
  assume len: "length (cs @ cs') < 2 ^ 256"
  then have len1: "length cs < 2 ^ 256" by simp
  have inv: "registry_inv ?s" and cnt: "unat (proofCounter ?s) \<le> length cs"
    using reachable_inv [OF len1] by blast+
  have inv': "registry_inv ?s'" using reachable_inv(1) [OF len] .
  have later: "storedProofId ?s' p" if p: "storedProofId ?s p" for p
    using run_mono [OF inv cnt _ p, of cs' C] len by (simp add: run_append)
  have kept: "nftTokenId (proofCommitments ?s' p) = nftTokenId (proofCommitments ?s p) \<and>
      tokenExists ?s' (nftTokenId (proofCommitments ?s p))" if p: "storedProofId ?s p" for p
    using invD_stored(1) [OF inv p] invD_stored(1) [OF inv' later [OF p]]
      invD_owners [OF inv', of p] later [OF p]
    by (simp add: tokenExists_def)
  show "(\<forall>t. tokenExists ?s t \<longleftrightarrow>
        (\<exists>p. storedProofId ?s p \<and> nftTokenId (proofCommitments ?s p) = t \<and> t \<noteq> 0)) \<and>
     (\<forall>p q. storedProofId ?s p \<and> storedProofId ?s q \<and>
            nftTokenId (proofCommitments ?s p) = nftTokenId (proofCommitments ?s q) \<longrightarrow> p = q) \<and>
     (\<forall>p. storedProofId ?s p \<longrightarrow>
        nftTokenId (proofCommitments ?s' p) = nftTokenId (proofCommitments ?s p) \<and>
        tokenExists ?s' (nftTokenId (proofCommitments ?s p)))"
    using credential_iff_record [OF inv] binding_injective [OF inv] kept by blast
qed

theorem credential_bound_to_one_record_witness:
  "length ([ex_submit] @ [ValidateProof 7 1 False]) < 2 ^ 256 \<and>
   storedProofId (ex_registry [ex_submit]) 1 \<and>
   nftTokenId (proofCommitments (ex_registry [ex_submit]) 1) = 1 \<and>
   tokenExists (ex_registry [ex_submit]) 1 \<and>
   nftTokenId (proofCommitments (ex_registry ([ex_submit] @ [ValidateProof 7 1 False])) 1) = 1 \<and>
   tokenExists (ex_registry ([ex_submit] @ [ValidateProof 7 1 False])) 1"
proof -
  have a: "length ([ex_submit] @ [ValidateProof 7 1 False]) < 2 ^ 256" by simp
  have b: "nftTokenId (proofCommitments (ex_registry [ex_submit]) 1) = 1"
    by (simp add: registry_eval_defs)
  from a b ex_stored_iff [of 1]
    credential_bound_to_one_record
      [of "[ex_submit]" "[ValidateProof 7 1 False]" ex_chain 7 "''ipfs://base/''"]
  show ?thesis unfolding ex_registry_def by (metis one_neq_zero)
qed

text \<open>
  Claim C2 as stated fails. After the submission of the scenario and its invalidation
  by the owner, credential 1 exists and is bound to record 1, the only stored record,
  whose \<open>isValid\<close> flag is false: no record has \<open>valid = true\<close> and the credential set.
\<close>

theorem credential_survives_invalidation:
  "tokenExists (ex_registry [ex_submit, ValidateProof 7 1 False]) 1 \<and>
   proofCounter (ex_registry [ex_submit, ValidateProof 7 1 False]) = 1 \<and>
   nftTokenId (proofCommitments (ex_registry [ex_submit, ValidateProof 7 1 False]) 1) = 1 \<and>
   \<not> isValid (proofCommitments (ex_registry [ex_submit, ValidateProof 7 1 False]) 1)"
  by (simp add: tokenExists_def registry_eval_defs)

subsection \<open>Validation and minting\<close>

lemma validateProof_succeeds:
  assumes "a = owner s" and "storedProofId s p"
    and "v \<and> nftTokenId (proofCommitments s p) = 0 \<longrightarrow>
           submitter (proofCommitments s p) \<noteq> 0 \<and> owners s (tokenIdCounter s + 1) = 0 \<and>
           checkOnERC721Received C (submitter (proofCommitments s p)) (tokenIdCounter s + 1)"
  shows "\<exists>s'. validateProof C a p v s = Inr s'"
  using assms
  by (auto simp: validateProof_def storedProofId_def mintNFT_def safeMint_def Let_def)

text \<open>
  Claim C3. A successful \<^verbatim>\<open>validateProof(proofId, isValid)\<close> sets the flag, and it
  mints exactly when \<open>isValid\<close> is true and the record has no credential: then the next
  token id, which had no owner, goes to the submitter, is bound to the record and its
  mint is logged. Otherwise (invalidation, or validation of a record with a
  credential) the token counter, the token owners, the token URIs and the binding of
  the record stay as they were and only the validation is logged. For a stored record
  and the owner as caller the call succeeds whenever no mint is due, and when one is
  due as soon as the inherited mint accepts it.
\<close>

theorem validateProof_mints_only_when_unbound:
  "(validateProof C a p v s = Inr s' \<longrightarrow>
      a = owner s \<and> storedProofId s p \<and> isValid (proofCommitments s' p) = v \<and>
      (if v \<and> nftTokenId (proofCommitments s p) = 0
       then tokenIdCounter s' = tokenIdCounter s + 1 \<and>
            nftTokenId (proofCommitments s' p) = tokenIdCounter s + 1 \<and>
            owners s (tokenIdCounter s + 1) = 0 \<and>
            owners s' = (owners s)(tokenIdCounter s + 1 := submitter (proofCommitments s p)) \<and>
            events s' = events s @ [ProofValidated p v,
              NFTMinted (tokenIdCounter s + 1) p (submitter (proofCommitments s p))
                (eventId (proofCommitments s p))]
       else tokenIdCounter s' = tokenIdCounter s \<and>
            nftTokenId (proofCommitments s' p) = nftTokenId (proofCommitments s p) \<and>
            owners s' = owners s \<and> tokenURIs s' = tokenURIs s \<and>
            events s' = events s @ [ProofValidated p v])) \<and>
   (a = owner s \<and> storedProofId s p \<and>
      (v \<and> nftTokenId (proofCommitments s p) = 0 \<longrightarrow>
         submitter (proofCommitments s p) \<noteq> 0 \<and> owners s (tokenIdCounter s + 1) = 0 \<and>
         checkOnERC721Received C (submitter (proofCommitments s p)) (tokenIdCounter s + 1)) \<longrightarrow>
      (\<exists>s''. validateProof C a p v s = Inr s''))"
proof (intro conjI impI)
  assume ok: "validateProof C a p v s = Inr s'"
  note f = validateProof_Inr [OF ok]
  show "a = owner s" and "storedProofId s p" by (rule f)+
  show "isValid (proofCommitments s' p) = v"
  proof (cases "v \<and> nftTokenId (proofCommitments s p) = 0")
    case True then show ?thesis by (simp add: f(4) [OF True])
  next
    case False then show ?thesis by (simp add: f(3) [OF False])
  qed
  show "if v \<and> nftTokenId (proofCommitments s p) = 0
       then tokenIdCounter s' = tokenIdCounter s + 1 \<and>
            nftTokenId (proofCommitments s' p) = tokenIdCounter s + 1 \<and>
            owners s (tokenIdCounter s + 1) = 0 \<and>
            owners s' = (owners s)(tokenIdCounter s + 1 := submitter (proofCommitments s p)) \<and>
            events s' = events s @ [ProofValidated p v,
              NFTMinted (tokenIdCounter s + 1) p (submitter (proofCommitments s p))
                (eventId (proofCommitments s p))]
       else tokenIdCounter s' = tokenIdCounter s \<and>
            nftTokenId (proofCommitments s' p) = nftTokenId (proofCommitments s p) \<and>
            owners s' = owners s \<and> tokenURIs s' = tokenURIs s \<and>
            events s' = events s @ [ProofValidated p v]"
  proof (cases "v \<and> nftTokenId (proofCommitments s p) = 0")
    case True
    have "owners s (tokenIdCounter s + 1) = 0"
      using ok True
      by (auto simp: validateProof_def mintNFT_def safeMint_def Let_def
          split: if_splits sum.splits)
    with True show ?thesis by (simp add: f(4) [OF True])
  next
    case False then show ?thesis by (simp add: f(3) [OF False])
  qed
next
  assume "a = owner s \<and> storedProofId s p \<and>
      (v \<and> nftTokenId (proofCommitments s p) = 0 \<longrightarrow>
         submitter (proofCommitments s p) \<noteq> 0 \<and> owners s (tokenIdCounter s + 1) = 0 \<and>
         checkOnERC721Received C (submitter (proofCommitments s p)) (tokenIdCounter s + 1))"
  then show "\<exists>s''. validateProof C a p v s = Inr s''"
    using validateProof_succeeds by blast
qed

theorem validateProof_mints_only_when_unbound_witness:
  "validateProof ex_chain 7 1 False (ex_registry [ex_submit])
     = Inr (ex_registry [ex_submit, ValidateProof 7 1 False]) \<and>
   tokenIdCounter (ex_registry [ex_submit, ValidateProof 7 1 False])
     = tokenIdCounter (ex_registry [ex_submit]) \<and>
   owners (ex_registry [ex_submit, ValidateProof 7 1 False]) = owners (ex_registry [ex_submit]) \<and>
   nftTokenId (proofCommitments (ex_registry [ex_submit, ValidateProof 7 1 False]) 1)
     = nftTokenId (proofCommitments (ex_registry [ex_submit]) 1) \<and>
   validateProof ex_chain 7 1 True (ex_registry [ex_submit, ValidateProof 7 1 False])
     = Inr (ex_registry [ex_submit, ValidateProof 7 1 False, ValidateProof 7 1 True]) \<and>
   tokenIdCounter (ex_registry [ex_submit, ValidateProof 7 1 False, ValidateProof 7 1 True])
     = tokenIdCounter (ex_registry [ex_submit, ValidateProof 7 1 False]) \<and>
   7 = owner ex_unminted \<and> storedProofId ex_unminted 1 \<and>
   nftTokenId (proofCommitments ex_unminted 1) = 0 \<and>
   (\<exists>s'. validateProof ex_chain 7 1 True ex_unminted = Inr s' \<and>
      tokenIdCounter s' = tokenIdCounter ex_unminted + 1 \<and>
      nftTokenId (proofCommitments s' 1) = tokenIdCounter ex_unminted + 1)"
proof -
  have a: "validateProof ex_chain 7 1 False (ex_registry [ex_submit])
     = Inr (ex_registry [ex_submit, ValidateProof 7 1 False])"
    by (simp add: registry_eval_defs)
  have a': "\<not> (False \<and> nftTokenId (proofCommitments (ex_registry [ex_submit]) 1) = 0)" by simp
  have b: "validateProof ex_chain 7 1 True (ex_registry [ex_submit, ValidateProof 7 1 False])
     = Inr (ex_registry [ex_submit, ValidateProof 7 1 False, ValidateProof 7 1 True])"
    by (simp add: registry_eval_defs)
  have b': "\<not> (True \<and> nftTokenId
      (proofCommitments (ex_registry [ex_submit, ValidateProof 7 1 False]) 1) = 0)"
    by (simp add: registry_eval_defs)
  have c: "7 = owner ex_unminted" "storedProofId ex_unminted 1"
    "nftTokenId (proofCommitments ex_unminted 1) = 0"
    "submitter (proofCommitments ex_unminted 1) \<noteq> 0"
    "owners ex_unminted (tokenIdCounter ex_unminted + 1) = 0"
    "checkOnERC721Received ex_chain (submitter (proofCommitments ex_unminted 1))
       (tokenIdCounter ex_unminted + 1)"
    by (simp_all add: ex_unminted_def storedProofId_def registry_eval_defs)
  from c validateProof_mints_only_when_unbound
      [of ex_chain 7 1 True ex_unminted]
  obtain s' where s': "validateProof ex_chain 7 1 True ex_unminted = Inr s'" by blast
  from a a' validateProof_mints_only_when_unbound
      [of ex_chain 7 1 False "ex_registry [ex_submit]"
          "ex_registry [ex_submit, ValidateProof 7 1 False]"]
  have 1: "tokenIdCounter (ex_registry [ex_submit, ValidateProof 7 1 False])
     = tokenIdCounter (ex_registry [ex_submit]) \<and>
   owners (ex_registry [ex_submit, ValidateProof 7 1 False]) = owners (ex_registry [ex_submit]) \<and>
   nftTokenId (proofCommitments (ex_registry [ex_submit, ValidateProof 7 1 False]) 1)
     = nftTokenId (proofCommitments (ex_registry [ex_submit]) 1)"
    by simp
  from b b' validateProof_mints_only_when_unbound
      [of ex_chain 7 1 True "ex_registry [ex_submit, ValidateProof 7 1 False]"
          "ex_registry [ex_submit, ValidateProof 7 1 False, ValidateProof 7 1 True]"]
  have 2: "tokenIdCounter (ex_registry [ex_submit, ValidateProof 7 1 False, ValidateProof 7 1 True])
     = tokenIdCounter (ex_registry [ex_submit, ValidateProof 7 1 False])"
    by simp
  from s' c(3) validateProof_mints_only_when_unbound [of ex_chain 7 1 True ex_unminted s']
  have 3: "tokenIdCounter s' = tokenIdCounter ex_unminted + 1 \<and>
      nftTokenId (proofCommitments s' 1) = tokenIdCounter ex_unminted + 1"
    by simp
  from a b c(1,2,3) 1 2 3 s' show ?thesis by blast
qed

subsection \<open>Valid proofs of a user for an event\<close>

lemma hasValidProofLoop_iff:
  "hasValidProofLoop C ps e s \<longleftrightarrow>
     (\<exists>p \<in> set ps. keccak256 C (bytes_of_string (eventId (proofCommitments s p)))
                      = keccak256 C (bytes_of_string e) \<and> isValid (proofCommitments s p))"
  by (induction ps) (auto simp: Let_def)

lemma userProofs_complete:
  assumes inv: "registry_inv s"
  shows "p \<in> set (userProofs s u) \<longleftrightarrow> storedProofId s p \<and> submitter (proofCommitments s p) = u"
  using invD_userProofs [OF inv, of p u] invD_stored(3) [OF inv, of p] by blast

lemma hasValidProofForEvent_inv:
  assumes inv: "registry_inv s"
    and nc: "\<forall>p. storedProofId s p \<and> submitter (proofCommitments s p) = u \<and>
           keccak256 C (bytes_of_string (eventId (proofCommitments s p)))
             = keccak256 C (bytes_of_string e) \<longrightarrow> eventId (proofCommitments s p) = e"
  shows "hasValidProofForEvent C u e s \<longleftrightarrow>
     (\<exists>p. storedProofId s p \<and> submitter (proofCommitments s p) = u \<and>
          eventId (proofCommitments s p) = e \<and> isValid (proofCommitments s p))"
  unfolding hasValidProofForEvent_def hasValidProofLoop_iff
  using userProofs_complete [OF inv, of _ u] nc by blast

text \<open>
  Claim C7. In a state reached by fewer than \<open>2 ^ 256\<close> transactions,
  \<^verbatim>\<open>hasValidProofForEvent(user, eventId)\<close> is true exactly when some stored record of
  that submitter and that event id has \<open>isValid\<close> set; the token id of the record
  plays no part. The source compares event ids through their hashes, so the statement
  asks that no event id stored for the user collides with the queried one under
  \<open>keccak256\<close>.
\<close>

theorem hasValidProofForEvent_iff_valid_record:
  "length cs < 2 ^ 256 \<and>
   (\<forall>p. storedProofId (run C cs (constructor d uri)) p \<and>
        submitter (proofCommitments (run C cs (constructor d uri)) p) = u \<and>
        keccak256 C (bytes_of_string (eventId (proofCommitments (run C cs (constructor d uri)) p)))
          = keccak256 C (bytes_of_string e) \<longrightarrow>
        eventId (proofCommitments (run C cs (constructor d uri)) p) = e) \<longrightarrow>
   (hasValidProofForEvent C u e (run C cs (constructor d uri)) \<longleftrightarrow>
     (\<exists>p. storedProofId (run C cs (constructor d uri)) p \<and>
          submitter (proofCommitments (run C cs (constructor d uri)) p) = u \<and>
          eventId (proofCommitments (run C cs (constructor d uri)) p) = e \<and>
          isValid (proofCommitments (run C cs (constructor d uri)) p)))"
proof (intro impI, elim conjE)
  assume len: "length cs < 2 ^ 256"
    and nc: "\<forall>p. storedProofId (run C cs (constructor d uri)) p \<and>
        submitter (proofCommitments (run C cs (constructor d uri)) p) = u \<and>
        keccak256 C (bytes_of_string (eventId (proofCommitments (run C cs (constructor d uri)) p)))
          = keccak256 C (bytes_of_string e) \<longrightarrow>
        eventId (proofCommitments (run C cs (constructor d uri)) p) = e"
  from reachable_inv(1) [OF len] nc
  show "hasValidProofForEvent C u e (run C cs (constructor d uri)) \<longleftrightarrow>
     (\<exists>p. storedProofId (run C cs (constructor d uri)) p \<and>
          submitter (proofCommitments (run C cs (constructor d uri)) p) = u \<and>
          eventId (proofCommitments (run C cs (constructor d uri)) p) = e \<and>
          isValid (proofCommitments (run C cs (constructor d uri)) p))"
    by (rule hasValidProofForEvent_inv)
qed

theorem hasValidProofForEvent_iff_valid_record_witness:
  "length [ex_submit] < 2 ^ 256 \<and>
   hasValidProofForEvent ex_chain 1 ''eth-summit'' (ex_registry [ex_submit]) \<and>
   (\<exists>p. storedProofId (ex_registry [ex_submit]) p \<and>
        submitter (proofCommitments (ex_registry [ex_submit]) p) = 1 \<and>
        eventId (proofCommitments (ex_registry [ex_submit]) p) = ''eth-summit'' \<and>
        isValid (proofCommitments (ex_registry [ex_submit]) p))"
proof -
  have a: "length [ex_submit] < 2 ^ 256" by simp
  have b: "eventId (proofCommitments (ex_registry [ex_submit]) 1) = ''eth-summit''"
    by (simp add: registry_eval_defs)
  have c: "\<forall>p. storedProofId (ex_registry [ex_submit]) p \<and>
        submitter (proofCommitments (ex_registry [ex_submit]) p) = 1 \<and>
        keccak256 ex_chain (bytes_of_string (eventId (proofCommitments (ex_registry [ex_submit]) p)))
          = keccak256 ex_chain (bytes_of_string ''eth-summit'') \<longrightarrow>
        eventId (proofCommitments (ex_registry [ex_submit]) p) = ''eth-summit''"
    using b by (simp add: ex_stored_iff)
  have d: "hasValidProofForEvent ex_chain 1 ''eth-summit'' (ex_registry [ex_submit])"
    by (simp add: hasValidProofForEvent_def registry_eval_defs)
  from a c d
    hasValidProofForEvent_iff_valid_record
      [of "[ex_submit]" ex_chain 7 "''ipfs://base/''" 1 "''eth-summit''"]
  show ?thesis unfolding ex_registry_def by blast
qed

subsection \<open>Identifiers start at 1\<close>

lemma word_ge_1: "(1 :: 'a::len word) \<le> p \<longleftrightarrow> 0 < p"
  by (auto simp: word_le_nat_alt word_less_nat_alt)

lemma stored_ge_1: "storedProofId s p \<Longrightarrow> 1 \<le> p"
  by (simp add: storedProofId_def word_ge_1)

lemma absent_commitment_iff:
  assumes inv: "registry_inv s"
  shows "commitmentToProofId s c = 0 \<longleftrightarrow>
     \<not> (\<exists>p. storedProofId s p \<and> commitment (proofCommitments s p) = c)"
proof
  assume z: "commitmentToProofId s c = 0"
  show "\<not> (\<exists>p. storedProofId s p \<and> commitment (proofCommitments s p) = c)"
  proof
    assume "\<exists>p. storedProofId s p \<and> commitment (proofCommitments s p) = c"
    then obtain p where p: "storedProofId s p" and c: "commitment (proofCommitments s p) = c"
      by blast
    from invD_stored(2) [OF inv p] c z have "p = 0" by simp
    with p show False by (simp add: storedProofId_def)
  qed
next
  assume n: "\<not> (\<exists>p. storedProofId s p \<and> commitment (proofCommitments s p) = c)"
  show "commitmentToProofId s c = 0"
  proof (rule ccontr)
    assume "commitmentToProofId s c \<noteq> 0"
    from invD_commitment [OF inv this] n show False by blast
  qed
qed

lemma unminted_iff:
  assumes inv: "registry_inv s"
  shows "nftTokenId (proofCommitments s p) = 0 \<longleftrightarrow>
     \<not> (\<exists>t r e. NFTMinted t p r e \<in> set (events s))"
proof (cases "storedProofId s p")
  case True
  then have "p \<noteq> 0" by (auto simp: storedProofId_def)
  with invD_stored(1,4) [OF inv True] show ?thesis by auto
next
  case False
  from invD_unstored [OF inv False] have "nftTokenId (proofCommitments s p) = 0"
    by (simp add: emptyProofCommitment_def)
  moreover have "\<not> (\<exists>t r e. NFTMinted t p r e \<in> set (events s))"
    using invD_minted(1) [OF inv] False by blast
  ultimately show ?thesis by simp
qed

lemma fresh_ids_ge_1:
  assumes inv: "registry_inv s" and lim: "proofCounter s \<noteq> - 1"
    and ok: "submitProof C a ts e pd s = Inr (pid, s')"
  shows "1 \<le> pid" and "1 \<le> nftTokenId (proofCommitments s' pid)"
proof -
  note f = submitProof_Inr [OF ok]
  have inv': "registry_inv s'" using inv lim ok by (rule submitProof_inv)
  have pc: "proofCounter s' = proofCounter s + 1" by (simp add: f(2))
  have st: "storedProofId s' pid"
    using storedProofId_succ [OF lim pc, of pid] by (simp add: f(1))
  then show "1 \<le> pid" by (rule stored_ge_1)
  with invD_stored(1) [OF inv' st] show "1 \<le> nftTokenId (proofCommitments s' pid)" by simp
qed

text \<open>
  Claim C9. In a state reached by fewer than \<open>2 ^ 256\<close> transactions: every proof id
  and every token id in the log of allocations (the events \<open>ProofSubmitted\<close> and
  \<open>NFTMinted\<close>) is at least 1, and so is the id and the token id of every stored
  record and every token that exists. Hence the two encodings are unambiguous:
  \<open>commitmentToProofId\<close> is 0 at a commitment exactly when no stored record has that
  commitment, and \<open>nftTokenId\<close> is 0 at a proof id exactly when the log has no mint
  for it. A further successful submission returns an id that is at least 1 and
  stores a token id that is at least 1.
\<close>

theorem allocated_ids_at_least_one:
  "length cs < 2 ^ 256 \<longrightarrow>
     (\<forall>p c e u. ProofSubmitted p c e u \<in> set (events (run C cs (constructor d uri))) \<longrightarrow> 1 \<le> p) \<and>
     (\<forall>t p r e. NFTMinted t p r e \<in> set (events (run C cs (constructor d uri))) \<longrightarrow>
        1 \<le> t \<and> 1 \<le> p) \<and>
     (\<forall>p. storedProofId (run C cs (constructor d uri)) p \<longrightarrow>
        1 \<le> p \<and> 1 \<le> nftTokenId (proofCommitments (run C cs (constructor d uri)) p)) \<and>
     (\<forall>t. tokenExists (run C cs (constructor d uri)) t \<longrightarrow> 1 \<le> t) \<and>
     (\<forall>c. commitmentToProofId (run C cs (constructor d uri)) c = 0 \<longleftrightarrow>
        \<not> (\<exists>p. storedProofId (run C cs (constructor d uri)) p \<and>
               commitment (proofCommitments (run C cs (constructor d uri)) p) = c)) \<and>
     (\<forall>p. nftTokenId (proofCommitments (run C cs (constructor d uri)) p) = 0 \<longleftrightarrow>
        \<not> (\<exists>t r e. NFTMinted t p r e \<in> set (events (run C cs (constructor d uri))))) \<and>
     (Suc (length cs) < 2 ^ 256 \<longrightarrow>
        (\<forall>a ts e pd pid s'.
           submitProof C a ts e pd (run C cs (constructor d uri)) = Inr (pid, s') \<longrightarrow>
           1 \<le> pid \<and> 1 \<le> nftTokenId (proofCommitments s' pid)))"
proof
  let ?s = "run C cs (constructor d uri)"
  assume len: "length cs < 2 ^ 256"
  have inv: "registry_inv ?s" and cnt: "unat (proofCounter ?s) \<le> length cs"
    using reachable_inv [OF len] by blast+
  have 1: "\<forall>p c e u. ProofSubmitted p c e u \<in> set (events ?s) \<longrightarrow> 1 \<le> p"
    using invD_submitted [OF inv] stored_ge_1 by blast
  have 2: "\<forall>t p r e. NFTMinted t p r e \<in> set (events ?s) \<longrightarrow> 1 \<le> t \<and> 1 \<le> p"
    using invD_minted [OF inv] stored_ge_1 by blast
  have 3: "\<forall>p. storedProofId ?s p \<longrightarrow> 1 \<le> p \<and> 1 \<le> nftTokenId (proofCommitments ?s p)"
    using invD_stored(1) [OF inv] stored_ge_1 by simp
  have 4: "\<forall>t. tokenExists ?s t \<longrightarrow> 1 \<le> t"
    using invD_owners [OF inv] stored_ge_1 by (simp add: tokenExists_def)
  have 5: "\<forall>c. commitmentToProofId ?s c = 0 \<longleftrightarrow>
        \<not> (\<exists>p. storedProofId ?s p \<and> commitment (proofCommitments ?s p) = c)"
    using absent_commitment_iff [OF inv] by blast
  have 6: "\<forall>p. nftTokenId (proofCommitments ?s p) = 0 \<longleftrightarrow>
        \<not> (\<exists>t r e. NFTMinted t p r e \<in> set (events ?s))"
    using unminted_iff [OF inv] by blast
  have 7: "Suc (length cs) < 2 ^ 256 \<longrightarrow>
        (\<forall>a ts e pd pid s'. submitProof C a ts e pd ?s = Inr (pid, s') \<longrightarrow>
           1 \<le> pid \<and> 1 \<le> nftTokenId (proofCommitments s' pid))"
  proof (intro impI allI)
    fix a ts e pd pid s'
    assume l: "Suc (length cs) < 2 ^ 256" and ok: "submitProof C a ts e pd ?s = Inr (pid, s')"
    have lim: "proofCounter ?s \<noteq> - 1" using cnt l by (rule below_limit)
    from fresh_ids_ge_1 [OF inv lim ok]
    show "1 \<le> pid \<and> 1 \<le> nftTokenId (proofCommitments s' pid)" by simp
  qed
  from 1 2 3 4 5 6 7 show
    "(\<forall>p c e u. ProofSubmitted p c e u \<in> set (events ?s) \<longrightarrow> 1 \<le> p) \<and>
     (\<forall>t p r e. NFTMinted t p r e \<in> set (events ?s) \<longrightarrow> 1 \<le> t \<and> 1 \<le> p) \<and>
     (\<forall>p. storedProofId ?s p \<longrightarrow> 1 \<le> p \<and> 1 \<le> nftTokenId (proofCommitments ?s p)) \<and>
     (\<forall>t. tokenExists ?s t \<longrightarrow> 1 \<le> t) \<and>
     (\<forall>c. commitmentToProofId ?s c = 0 \<longleftrightarrow>
        \<not> (\<exists>p. storedProofId ?s p \<and> commitment (proofCommitments ?s p) = c)) \<and>
     (\<forall>p. nftTokenId (proofCommitments ?s p) = 0 \<longleftrightarrow>
        \<not> (\<exists>t r e. NFTMinted t p r e \<in> set (events ?s))) \<and>
     (Suc (length cs) < 2 ^ 256 \<longrightarrow>
        (\<forall>a ts e pd pid s'. submitProof C a ts e pd ?s = Inr (pid, s') \<longrightarrow>
           1 \<le> pid \<and> 1 \<le> nftTokenId (proofCommitments s' pid)))"
    by (intro conjI)
qed

theorem allocated_ids_at_least_one_witness:
  "Suc (length ([] :: call list)) < 2 ^ 256 \<and>
   submitProof ex_chain 1 100 ''eth-summit'' ex_proofA (run ex_chain [] (constructor 7 ''ipfs://base/''))
     = Inr (1, ex_registry [ex_submit]) \<and>
   NFTMinted 1 1 1 ''eth-summit'' \<in> set (events (run ex_chain [ex_submit] (constructor 7 ''ipfs://base/''))) \<and>
   (1 :: uint256) \<le> 1 \<and>
   1 \<le> nftTokenId (proofCommitments (ex_registry [ex_submit]) 1) \<and>
   nftTokenId (proofCommitments (run ex_chain [ex_submit] (constructor 7 ''ipfs://base/'')) 1) \<noteq> 0"
proof -
  have a: "submitProof ex_chain 1 100 ''eth-summit'' ex_proofA
      (run ex_chain [] (constructor 7 ''ipfs://base/'')) = Inr (1, ex_registry [ex_submit])"
    using ex_first by (simp add: ex_registry_def)
  have b: "Suc (length ([] :: call list)) < 2 ^ 256" "length [ex_submit] < 2 ^ 256" by simp_all
  have c: "NFTMinted 1 1 1 ''eth-summit''
      \<in> set (events (run ex_chain [ex_submit] (constructor 7 ''ipfs://base/'')))"
    by (simp add: registry_eval_defs)
  from a b(1) allocated_ids_at_least_one [of "[]" ex_chain 7 "''ipfs://base/''"]
  have 1: "(1 :: uint256) \<le> 1 \<and> 1 \<le> nftTokenId (proofCommitments (ex_registry [ex_submit]) 1)"
    by (metis length_0_conv list.size(3) zero_less_numeral zero_less_power)
  from c b(2) allocated_ids_at_least_one [of "[ex_submit]" ex_chain 7 "''ipfs://base/''"]
  have 2: "nftTokenId (proofCommitments (run ex_chain [ex_submit] (constructor 7 ''ipfs://base/'')) 1) \<noteq> 0"
    by blast
  from a b(1) c 1 2 show ?thesis by blast
qed

end
